theory Spec2Isabelle
  imports Main "HOL-Library.Word"
begin

unbundle bit_operations_syntax

section \<open>Bytes and network byte order (inettypes.c, arpa/inet.h)\<close>

text \<open>
  A C \<^verbatim>\<open>uint8_t\<close> or \<^verbatim>\<open>char\<close> is an 8-bit word; a buffer, a file and a C string are
  byte lists. Sizes, counts and offsets are natural numbers; where the C code stores
  one in a narrower integer the truncation is written out (\<open>mod 2 ^ 32\<close>).
  The conversions below give the bytes that the packed structs hold in memory after
  the value has gone through \<^verbatim>\<open>htons\<close>, \<^verbatim>\<open>htonl\<close>, \<^verbatim>\<open>hton24\<close> or \<^verbatim>\<open>hton40\<close>.
\<close>

type_synonym byte = "8 word"

definition htons :: "nat \<Rightarrow> byte list" where
  "htons v = [of_nat (v div 2 ^ 8), of_nat v]"

definition htonl :: "nat \<Rightarrow> byte list" where
  "htonl v = [of_nat (v div 2 ^ 24), of_nat (v div 2 ^ 16), of_nat (v div 2 ^ 8), of_nat v]"

definition hton24 :: "nat \<Rightarrow> byte list" where
  "hton24 v = [of_nat (v div 2 ^ 16), of_nat (v div 2 ^ 8), of_nat v]"

definition hton40 :: "nat \<Rightarrow> byte list" where
  "hton40 v = [of_nat (v div 2 ^ 32), of_nat (v div 2 ^ 24), of_nat (v div 2 ^ 16),
               of_nat (v div 2 ^ 8), of_nat v]"

text \<open>Reading a field of \<open>n\<close> bytes: the big-endian value of the first \<open>n\<close> bytes.\<close>

definition be_val :: "byte list \<Rightarrow> nat" where
  "be_val bs = foldl (\<lambda>acc b. acc * 256 + unat b) 0 bs"

definition ntohs :: "byte list \<Rightarrow> nat" where
  "ntohs bs = be_val (take 2 bs)"

definition ntohl :: "byte list \<Rightarrow> nat" where
  "ntohl bs = be_val (take 4 bs)"

definition ntoh24 :: "byte list \<Rightarrow> nat" where
  "ntoh24 bs = be_val (take 3 bs)"

definition ntoh40 :: "byte list \<Rightarrow> nat" where
  "ntoh40 bs = be_val (take 5 bs)"

section \<open>Archive descriptor and configuration (common.h, psarc.h)\<close>

definition PSARC_STORE :: int where "PSARC_STORE = 0"
definition PSARC_ZLIB :: int where "PSARC_ZLIB = 1"
definition PSARC_LZMA :: int where "PSARC_LZMA = 2"

definition AF_ICASE :: nat where "AF_ICASE = 1"
definition AF_ABSPATH :: nat where "AF_ABSPATH = 2"

record ARCHIVEINFO =
  version_high :: nat
  version_low :: nat
  compression_type :: int
  toc_length :: nat
  toc_entries :: nat
  block_size :: nat
  archive_flags :: nat

record FILEINFO =
  name_digest :: "byte list"
  filename :: "byte list option"
  offset :: nat
  block_index :: nat
  num_blocks :: nat
  compressed_size :: nat
  uncompressed_size :: nat

record CONFIG =
  compression_level :: int
  extreme_compression_flag :: bool
  overwrite_flag :: bool
  trim_path_flag :: bool
  skip_existing_files_flag :: bool
  num_threads :: int

text \<open>The initial values of the globals \<^verbatim>\<open>_ArchiveInfo\<close> and \<^verbatim>\<open>_Config\<close> (common.c).\<close>

definition default_ArchiveInfo :: ARCHIVEINFO where
  "default_ArchiveInfo =
     \<lparr>version_high = 1, version_low = 4, compression_type = PSARC_STORE,
      toc_length = 0, toc_entries = 0, block_size = 65536, archive_flags = 0\<rparr>"

definition default_Config :: CONFIG where
  "default_Config =
     \<lparr>compression_level = 5, extreme_compression_flag = False, overwrite_flag = False,
      trim_path_flag = False, skip_existing_files_flag = False, num_threads = 0\<rparr>"

text \<open>The sizes of the packed structs \<^verbatim>\<open>PSARCHEADER\<close> and \<^verbatim>\<open>PSARCTOC\<close>.\<close>

definition sizeof_PSARCHEADER :: nat where "sizeof_PSARCHEADER = 32"
definition sizeof_PSARCTOC :: nat where "sizeof_PSARCTOC = 30"

definition magic_PSAR :: "byte list" where "magic_PSAR = [0x50, 0x53, 0x41, 0x52]"
definition tag_lzma :: "byte list" where "tag_lzma = [0x6C, 0x7A, 0x6D, 0x61]"
definition tag_zlib :: "byte list" where "tag_zlib = [0x7A, 0x6C, 0x69, 0x62]"

section \<open>Header (pak.c write_header, unpak.c read_header)\<close>

text \<open>
  \<^verbatim>\<open>write_header\<close> fills the 32-byte struct and writes it at offset 0. The terminating
  NUL of each \<^verbatim>\<open>strcpy\<close> lands on the first byte of the next field, which is assigned
  afterwards. \<^verbatim>\<open>toc_length\<close> is a \<^verbatim>\<open>size_t\<close> passed to \<^verbatim>\<open>htonl\<close>: its low 32 bits.
\<close>

definition header_tag :: "ARCHIVEINFO \<Rightarrow> byte list" where
  "header_tag ai = (if compression_type ai = PSARC_LZMA then tag_lzma else tag_zlib)"

definition write_header :: "ARCHIVEINFO \<Rightarrow> byte list" where
  "write_header ai =
     magic_PSAR @ htonl 0x00010004 @ header_tag ai @
     htonl (toc_length ai mod 2 ^ 32) @ htonl 0x1E @ htonl (toc_entries ai) @
     htonl (block_size ai) @ htonl (archive_flags ai)"

text \<open>
  \<^verbatim>\<open>read_header\<close> reads one item of 32 bytes at offset 0 and returns 1 when that item
  is not there. Nothing else is checked: the magic and the entry size are not looked
  at. The fields that the header does not carry keep the value of the global
  descriptor \<open>ai\<close>. The result is \<open>None\<close> for the return value 1.
\<close>

definition bytes_at :: "nat \<Rightarrow> nat \<Rightarrow> 'a list \<Rightarrow> 'a list" where
  "bytes_at off n xs = take n (drop off xs)"

definition read_header :: "ARCHIVEINFO \<Rightarrow> byte list \<Rightarrow> ARCHIVEINFO option" where
  "read_header ai file =
     (if length file < sizeof_PSARCHEADER then None
      else Some (ai\<lparr>
        version_high := ntohs (bytes_at 4 2 file),
        version_low := ntohs (bytes_at 6 2 file),
        compression_type := (if bytes_at 8 4 file = tag_lzma then PSARC_LZMA else PSARC_ZLIB),
        toc_length := ntohl (bytes_at 12 4 file),
        toc_entries := ntohl (bytes_at 20 4 file),
        block_size := ntohl (bytes_at 24 4 file),
        archive_flags := ntohl (bytes_at 28 4 file)\<rparr>))"

section \<open>Block-size table items (common.c, pak.c write_blocktable, unpak.c read_blocktable)\<close>

definition get_blocktable_item_size :: "ARCHIVEINFO \<Rightarrow> int" where
  "get_blocktable_item_size ai =
     (if block_size ai \<le> 0x100 then 1
      else if block_size ai \<le> 0x10000 then 2
      else if block_size ai \<le> 0x1000000 then 3
      else if block_size ai \<le> 0x100000000 then 4
      else -1)"

text \<open>One iteration of the loop of \<^verbatim>\<open>write_blocktable\<close>: the bytes written for one slot.\<close>

definition write_blocktable_item :: "int \<Rightarrow> nat \<Rightarrow> byte list" where
  "write_blocktable_item item_size v =
     (if item_size = 1 then [of_nat (v AND 0xff)]
      else if item_size = 2 then htons (v AND 0xffff)
      else if item_size = 3 then hton24 (v AND 0x0fffff)
      else if item_size = 4 then htonl v
      else [])"

definition write_blocktable :: "ARCHIVEINFO \<Rightarrow> (nat \<Rightarrow> nat) \<Rightarrow> nat \<Rightarrow> byte list" where
  "write_blocktable ai blocktable blocktable_size =
     concat (map (\<lambda>i. write_blocktable_item (get_blocktable_item_size ai) (blocktable i))
                 [0..<blocktable_size])"

text \<open>
  The reader maps the slot value 0 to the block size (\<^verbatim>\<open>get_compressed_size\<close> and
  \<^verbatim>\<open>decompress_entry\<close>: \<^verbatim>\<open>if (!block_size) block_size = chunk_size\<close>).
\<close>

definition resolve_slot :: "nat \<Rightarrow> nat \<Rightarrow> nat" where
  "resolve_slot chunk_size v = (if v = 0 then chunk_size else v)"

section \<open>External libraries\<close>

text \<open>
  zlib, liblzma, the MD5 routine (md5.c) and the libc path functions are not part of
  the archive engine; they are parameters of the model.
  \<^item> \<open>compress2 cap level src\<close> is the content of the destination buffer up to the
    final \<^verbatim>\<open>dest_len\<close> when \<^verbatim>\<open>compress2\<close> is called with capacity \<open>cap\<close> (its return
    code is ignored by the callers).
  \<^item> \<open>lzma_encode cap level extreme src\<close> is \<open>None\<close> when \<^verbatim>\<open>lzma_stream_encoder\<close> fails
    or \<^verbatim>\<open>lzma_code\<close> returns neither \<^verbatim>\<open>LZMA_STREAM_END\<close> nor \<^verbatim>\<open>LZMA_OK\<close>, and otherwise
    the \<^verbatim>\<open>dest_len - avail_out\<close> bytes produced.
  \<^item> \<open>uncompress cap src\<close> is \<open>(ok, out)\<close>: \<open>ok\<close> when \<^verbatim>\<open>uncompress\<close>, called with the
    capacity \<open>cap\<close>, returns \<^verbatim>\<open>Z_OK\<close>; \<open>out\<close> the bytes it has put into the destination.
  \<^item> \<open>lzma_decode cap src\<close> is \<open>(ok, out)\<close>: \<open>ok\<close> when the decoder is created and
    \<^verbatim>\<open>lzma_code\<close> returns \<^verbatim>\<open>LZMA_STREAM_END\<close>; \<open>out\<close> the bytes it has put into the
    \<open>cap\<close> bytes of output space.
\<close>

record libs =
  compressBound :: "nat \<Rightarrow> nat"
  compress2 :: "nat \<Rightarrow> int \<Rightarrow> byte list \<Rightarrow> byte list"
  lzma_encode :: "nat \<Rightarrow> int \<Rightarrow> bool \<Rightarrow> byte list \<Rightarrow> byte list option"
  uncompress :: "nat \<Rightarrow> byte list \<Rightarrow> bool \<times> byte list"
  lzma_decode :: "nat \<Rightarrow> byte list \<Rightarrow> bool \<times> byte list"
  md5 :: "byte list \<Rightarrow> 128 word"
  dirname :: "byte list \<Rightarrow> byte list"
  basename :: "byte list \<Rightarrow> byte list"

section \<open>Streams and files\<close>

text \<open>
  \<^verbatim>\<open>fread(buf, n, 1, fp) * n\<close>: the \<open>n\<close> bytes of one whole item, or nothing when fewer
  than \<open>n\<close> bytes are left (the stream is then at its end). The second component is the
  unread rest of the stream.
\<close>

definition fread1 :: "nat \<Rightarrow> byte list \<Rightarrow> byte list \<times> byte list" where
  "fread1 n fp = (if n \<le> length fp then (take n fp, drop n fp) else ([], []))"

text \<open>
  Writing \<open>bs\<close> at position \<open>pos\<close> of a file, as \<^verbatim>\<open>fseek\<close> followed by \<^verbatim>\<open>fwrite\<close> does:
  a gap beyond the end is filled with zero bytes, an empty write changes nothing.
\<close>

definition pwrite :: "nat \<Rightarrow> byte list \<Rightarrow> byte list \<Rightarrow> byte list" where
  "pwrite pos bs file =
     (if bs = [] then file
      else take pos file @ replicate (pos - length file) 0 @ bs @ drop (pos + length bs) file)"

text \<open>What \<^verbatim>\<open>stat\<close> and \<^verbatim>\<open>fopen(..., "rb")\<close> find at an input path.\<close>

datatype disk_file = NoFile | NoAccess nat | Regular "byte list"

fun stat_size :: "disk_file \<Rightarrow> nat option" where
  "stat_size NoFile = None"
| "stat_size (NoAccess n) = Some n"
| "stat_size (Regular c) = Some (length c)"

fun fopen_rb :: "disk_file \<Rightarrow> byte list option" where
  "fopen_rb (Regular c) = Some c"
| "fopen_rb _ = None"

section \<open>Compressing one block (pak.c)\<close>

text \<open>
  The \<^verbatim>\<open>switch\<close> on the compression type in \<^verbatim>\<open>compress_entry\<close>; the result is the
  \<^verbatim>\<open>bytes_write\<close> bytes of \<^verbatim>\<open>write_buffer\<close> handed to \<^verbatim>\<open>fwrite\<close>.
\<close>

definition compress_block :: "libs \<Rightarrow> ARCHIVEINFO \<Rightarrow> CONFIG \<Rightarrow> byte list \<Rightarrow> byte list" where
  "compress_block lb ai cfg rd =
     (if compression_type ai = PSARC_ZLIB then
        (let out = compress2 lb (compressBound lb (length rd)) (compression_level cfg) rd
         in if length out \<ge> length rd then rd else out)
      else if compression_type ai = PSARC_LZMA then
        (case lzma_encode lb (block_size ai) (compression_level cfg)
                (extreme_compression_flag cfg) rd of
           Some out \<Rightarrow> if length out \<ge> length rd then rd else out
         | None \<Rightarrow> rd)
      else rd)"

text \<open>
  The same \<^verbatim>\<open>switch\<close> in \<^verbatim>\<open>compress_entry_thread\<close>; only the output capacity differs
  (\<^verbatim>\<open>_ArchiveInfo.block_size * 2\<close>, a 32-bit product).
\<close>

definition compress_block_thread :: "libs \<Rightarrow> ARCHIVEINFO \<Rightarrow> CONFIG \<Rightarrow> byte list \<Rightarrow> byte list" where
  "compress_block_thread lb ai cfg rd =
     (if compression_type ai = PSARC_ZLIB then
        (let out = compress2 lb ((block_size ai * 2) mod 2 ^ 32) (compression_level cfg) rd
         in if length out \<ge> length rd then rd else out)
      else if compression_type ai = PSARC_LZMA then
        (case lzma_encode lb ((block_size ai * 2) mod 2 ^ 32) (compression_level cfg)
                (extreme_compression_flag cfg) rd of
           Some out \<Rightarrow> if length out \<ge> length rd then rd else out
         | None \<Rightarrow> rd)
      else rd)"

section \<open>Compressing one entry (pak.c)\<close>

text \<open>
  The part of the writer's state that the block pipeline changes: the bytes written to
  the archive from \<open>toc_length\<close> on, the running \<^verbatim>\<open>total_size\<close>, the block-size table
  (an array indexed by slot; it is allocated with one slot per block) and the index of
  the next slot.
\<close>

record pak_state =
  archive_file :: "byte list"
  total_size :: nat
  blocktable :: "nat \<Rightarrow> nat"
  blocktable_idx :: nat

text \<open>The input of \<^verbatim>\<open>compress_entry\<close>: \<^verbatim>\<open>input_mem\<close>, or \<^verbatim>\<open>input_fp\<close> with its unread rest.\<close>

datatype input = Mem "byte list" | Fp "byte list"

fun read_block :: "input \<Rightarrow> nat \<Rightarrow> nat \<Rightarrow> byte list \<times> input" where
  "read_block (Fp fp) bytes_uncompressed to_read =
     (let (rd, fp') = fread1 to_read fp in (rd, Fp fp'))"
| "read_block (Mem m) bytes_uncompressed to_read = (bytes_at bytes_uncompressed to_read m, Mem m)"

text \<open>
  The difference of two \<^verbatim>\<open>uint64_t\<close> values (operands below \<open>2 ^ 64\<close>): it wraps around
  when the second is the larger one.
\<close>

definition sub_u64 :: "nat \<Rightarrow> nat \<Rightarrow> nat" where
  "sub_u64 a b = (if b \<le> a then a - b else a + 2 ^ 64 - b)"

text \<open>
  The \<^verbatim>\<open>while (blocks)\<close> loop of \<^verbatim>\<open>compress_entry\<close>, by recursion on \<^verbatim>\<open>blocks\<close>. The
  arguments \<open>bc\<close> and \<open>bu\<close> are \<^verbatim>\<open>bytes_compressed\<close> and \<^verbatim>\<open>bytes_uncompressed\<close>. For the
  last block \<^verbatim>\<open>to_read\<close> is the wrapping difference
  \<^verbatim>\<open>fi->uncompressed_size - bytes_uncompressed\<close>, clipped to the block size.
\<close>

primrec compress_entry_loop ::
  "libs \<Rightarrow> ARCHIVEINFO \<Rightarrow> CONFIG \<Rightarrow> nat \<Rightarrow> nat \<Rightarrow> input \<Rightarrow> nat \<Rightarrow> nat \<Rightarrow> pak_state
    \<Rightarrow> nat \<times> pak_state" where
  "compress_entry_loop lb ai cfg usize 0 inp bc bu s = (bc, s)"
| "compress_entry_loop lb ai cfg usize (Suc n) inp bc bu s =
     (let chunk_size = block_size ai;
          to_read = (if Suc n > 1 then chunk_size else min (sub_u64 usize bu) chunk_size);
          (rd, inp') = read_block inp bu to_read;
          w = compress_block lb ai cfg rd;
          s' = s\<lparr>archive_file := archive_file s @ w,
                 blocktable := (blocktable s)(blocktable_idx s := length w),
                 blocktable_idx := (blocktable_idx s + 1) mod 2 ^ 32\<rparr>
      in compress_entry_loop lb ai cfg usize n inp' (bc + length w) (bu + length rd) s')"

definition compress_entry ::
  "libs \<Rightarrow> ARCHIVEINFO \<Rightarrow> CONFIG \<Rightarrow> input \<Rightarrow> FILEINFO \<Rightarrow> pak_state \<Rightarrow> FILEINFO \<times> pak_state" where
  "compress_entry lb ai cfg inp fi s =
     (let fi1 = fi\<lparr>offset := total_size s, block_index := blocktable_idx s\<rparr>;
          (bc, s') = compress_entry_loop lb ai cfg (uncompressed_size fi1) (num_blocks fi1)
                       inp 0 0 s
      in (fi1\<lparr>compressed_size := bc\<rparr>, s'\<lparr>total_size := total_size s' + bc\<rparr>))"

text \<open>
  The worker pool. A task is started for every block in the order in which
  \<^verbatim>\<open>compress_entry_multi\<close> reads the blocks, and \<^verbatim>\<open>threads_start_task\<close> numbers the tasks
  in that order. A worker encodes its block on its own buffers and then waits in
  \<^verbatim>\<open>threads_wait_for_orderer_continue\<close> until the shared counter equals its number; only
  \<^verbatim>\<open>threads_completed\<close>, called at the end of the commit, advances the counter. The
  commits therefore run one at a time, in task order, and they are the only code that
  touches the archive file, \<^verbatim>\<open>total_size\<close>, the block-size table and the entry's
  offset, first block and compressed size. \<open>compress_entry_thread\<close> is the effect of
  one task on that state: \<open>rd\<close> is the block read by the dispatcher, \<open>pkd_idx\<close> the slot
  index copied into the task.
\<close>

definition compress_entry_thread ::
  "libs \<Rightarrow> ARCHIVEINFO \<Rightarrow> CONFIG \<Rightarrow> bool \<Rightarrow> nat \<Rightarrow> byte list \<Rightarrow> FILEINFO \<times> pak_state
    \<Rightarrow> FILEINFO \<times> pak_state" where
  "compress_entry_thread lb ai cfg is_first_block pkd_idx rd fs =
     (let fi = fst fs; s = snd fs;
          w = compress_block_thread lb ai cfg rd;
          fi' = (if is_first_block
                 then fi\<lparr>block_index := pkd_idx, offset := total_size s,
                         compressed_size := length w\<rparr>
                 else fi\<lparr>compressed_size := compressed_size fi + length w\<rparr>)
      in (fi', s\<lparr>archive_file := archive_file s @ w,
                 total_size := total_size s + length w,
                 blocktable := (blocktable s)(pkd_idx := length w)\<rparr>))"

primrec compress_entry_multi_loop ::
  "libs \<Rightarrow> ARCHIVEINFO \<Rightarrow> CONFIG \<Rightarrow> nat \<Rightarrow> byte list \<Rightarrow> nat \<Rightarrow> bool \<Rightarrow> FILEINFO \<times> pak_state
    \<Rightarrow> FILEINFO \<times> pak_state" where
  "compress_entry_multi_loop lb ai cfg 0 fp bu first_block fs = fs"
| "compress_entry_multi_loop lb ai cfg (Suc n) fp bu first_block fs =
     (let to_read = (if Suc n > 1 then block_size ai
                     else min (sub_u64 (uncompressed_size (fst fs)) bu) (block_size ai));
          (rd, fp') = fread1 to_read fp;
          (fi', s') = compress_entry_thread lb ai cfg first_block (blocktable_idx (snd fs)) rd fs
      in compress_entry_multi_loop lb ai cfg n fp' (bu + length rd) False
           (fi', s'\<lparr>blocktable_idx := (blocktable_idx s' + 1) mod 2 ^ 32\<rparr>))"

definition compress_entry_multi ::
  "libs \<Rightarrow> ARCHIVEINFO \<Rightarrow> CONFIG \<Rightarrow> byte list \<Rightarrow> FILEINFO \<Rightarrow> pak_state \<Rightarrow> FILEINFO \<times> pak_state" where
  "compress_entry_multi lb ai cfg fp fi s =
     (if uncompressed_size fi \<noteq> 0
      then compress_entry_multi_loop lb ai cfg
             (((uncompressed_size fi + block_size ai - 1) div block_size ai) mod 2 ^ 32)
             fp 0 True (fi, s)
      else (fi\<lparr>compressed_size := 0\<rparr>, s))"

section \<open>Reading the table of contents and the block-size table (unpak.c)\<close>

text \<open>
  The result of a library call that the code does not check is modelled by what the
  call leaves behind. \<^verbatim>\<open>fread(&toc, sizeof(toc), 1, fp)\<close> overwrites the struct with the
  bytes that are there, at most 30; a short read leaves the tail of the struct as it
  was. \<open>toc\<close> is the content of the struct before the call; it is not initialised
  before the first one.
\<close>

definition fread_into :: "nat \<Rightarrow> byte list \<Rightarrow> byte list \<Rightarrow> byte list" where
  "fread_into n stream buf = take n stream @ drop (length (take n stream)) buf"

text \<open>The table is allocated with \<^verbatim>\<open>calloc\<close>: the fields not read from the file are zero.\<close>

definition toc_entry :: "byte list \<Rightarrow> FILEINFO" where
  "toc_entry toc =
     \<lparr>name_digest = bytes_at 0 16 toc, filename = None,
      offset = ntoh40 (bytes_at 25 5 toc), block_index = ntohl (bytes_at 16 4 toc),
      num_blocks = 0, compressed_size = 0,
      uncompressed_size = ntoh40 (bytes_at 20 5 toc)\<rparr>"

primrec read_toc_table_loop :: "nat \<Rightarrow> byte list \<Rightarrow> byte list \<Rightarrow> FILEINFO list \<times> byte list" where
  "read_toc_table_loop 0 stream toc = ([], stream)"
| "read_toc_table_loop (Suc n) stream toc =
     (let toc' = fread_into sizeof_PSARCTOC stream toc;
          (fis, rest) = read_toc_table_loop n (drop sizeof_PSARCTOC stream) toc'
      in (toc_entry toc' # fis, rest))"

definition read_toc_table :: "ARCHIVEINFO \<Rightarrow> byte list \<Rightarrow> byte list \<Rightarrow> FILEINFO list \<times> byte list" where
  "read_toc_table ai toc0 file =
     read_toc_table_loop (toc_entries ai) (drop sizeof_PSARCHEADER file) toc0"

text \<open>
  \<^verbatim>\<open>read_blocktable\<close> continues where the table of contents ended. The item count is
  computed in \<^verbatim>\<open>size_t\<close> (64 bits, wrapping), the loop counter is a \<^verbatim>\<open>uint32_t\<close>: with
  a count of \<open>2 ^ 32\<close> or more the loop can only end by a failing \<^verbatim>\<open>fread\<close>. Each item
  is read into the first bytes of the \<^verbatim>\<open>uint32_t blk\<close>, which is not initialised; for
  one-byte items the whole of \<^verbatim>\<open>blk\<close> is stored, so the three bytes that \<^verbatim>\<open>fread\<close> does
  not touch come from \<open>blk\<close> (little-endian host). \<open>None\<close> is the \<^verbatim>\<open>NULL\<close> result.
\<close>

definition read_blocktable_item :: "int \<Rightarrow> nat \<Rightarrow> byte list \<Rightarrow> nat" where
  "read_blocktable_item bsize blk item =
     (if bsize = 1 then (blk div 256) * 256 + be_val item
      else if bsize = 2 then ntohs item
      else if bsize = 3 then ntoh24 item
      else ntohl item)"

primrec read_blocktable_loop :: "int \<Rightarrow> nat \<Rightarrow> nat \<Rightarrow> byte list \<Rightarrow> nat list option" where
  "read_blocktable_loop bsize blk 0 stream = Some []"
| "read_blocktable_loop bsize blk (Suc n) stream =
     (if length stream < nat bsize then None
      else map_option (Cons (read_blocktable_item bsize blk (take (nat bsize) stream)))
             (read_blocktable_loop bsize blk n (drop (nat bsize) stream)))"

definition blocktable_count :: "ARCHIVEINFO \<Rightarrow> nat" where
  "blocktable_count ai =
     nat ((int (toc_length ai) - int (sizeof_PSARCHEADER + toc_entries ai * sizeof_PSARCTOC))
            mod 2 ^ 64) div nat (get_blocktable_item_size ai)"

definition read_blocktable :: "ARCHIVEINFO \<Rightarrow> nat \<Rightarrow> byte list \<Rightarrow> nat list option" where
  "read_blocktable ai blk0 stream =
     (if blocktable_count ai \<ge> 2 ^ 32 then None
      else read_blocktable_loop (get_blocktable_item_size ai) blk0 (blocktable_count ai) stream)"

section \<open>Compressed size of an entry (common.c)\<close>

text \<open>
  Reading a slot that the table does not have is undefined in C, and so is the
  division by a block size of zero; both are the result \<open>None\<close>.
\<close>

primrec get_compressed_size_loop :: "nat \<Rightarrow> nat list \<Rightarrow> nat \<Rightarrow> nat \<Rightarrow> nat \<Rightarrow> nat option" where
  "get_compressed_size_loop chunk_size bt 0 index len = Some len"
| "get_compressed_size_loop chunk_size bt (Suc blocks) index len =
     (if index < length bt
      then get_compressed_size_loop chunk_size bt blocks ((index + 1) mod 2 ^ 32)
             (len + resolve_slot chunk_size (bt ! index))
      else None)"

definition get_compressed_size :: "ARCHIVEINFO \<Rightarrow> FILEINFO \<Rightarrow> nat list \<Rightarrow> nat option" where
  "get_compressed_size ai fi bt =
     (let chunk_size = block_size ai
      in if uncompressed_size fi \<noteq> 0
         then (if chunk_size = 0 then None
               else get_compressed_size_loop chunk_size bt
                      (((uncompressed_size fi + chunk_size - 1) div chunk_size) mod 2 ^ 32)
                      (block_index fi) 0)
         else Some 0)"

section \<open>Decompressing one entry (unpak.c decompress_entry)\<close>

text \<open>
  The destination of \<^verbatim>\<open>decompress_entry\<close>: \<^verbatim>\<open>output_buffer\<close> (the manifest) with its
  content, or \<^verbatim>\<open>output_file\<close> with the bytes written to it so far.
\<close>

datatype sink = ToMem "byte list" | ToFile "byte list"

record unpak_state =
  remaining_size :: nat
  chunk_size :: nat
  open_block :: nat
  archive :: "byte list"
  target_buffer :: "byte list"
  dest :: sink

text \<open>
  A C function returns its \<^verbatim>\<open>int\<close> and leaves a state behind. An access outside an
  array or a buffer (a slot outside the block-size table, a block read or decoded past
  the end of \<^verbatim>\<open>source_buffer\<close>, \<^verbatim>\<open>target_buffer\<close> or \<^verbatim>\<open>output_buffer\<close>) is undefined in C
  and is a result of its own.
\<close>

datatype 'a outcome = Return int 'a | OutOfBounds

definition is_zlib_block :: "byte list \<Rightarrow> bool" where
  "is_zlib_block rd \<longleftrightarrow>
     length rd > 2 \<and> rd ! 0 = 0x78 \<and>
     (rd ! 1 = 0x01 \<or> rd ! 1 = 0x5E \<or> rd ! 1 = 0x9C \<or> rd ! 1 = 0xDA)"

definition xz_magic :: "byte list" where
  "xz_magic = [0xFD, 0x37, 0x7A, 0x58, 0x5A, 0x00]"

definition is_lzma_block :: "byte list \<Rightarrow> bool" where
  "is_lzma_block rd \<longleftrightarrow> length rd > 6 \<and> take 6 rd = xz_magic"

text \<open>
  Storing \<open>bs\<close> at position \<open>pos\<close> of a buffer that has room for it: the buffers of the
  program are allocated once and keep their length.
\<close>

definition mem_write :: "nat \<Rightarrow> byte list \<Rightarrow> byte list \<Rightarrow> byte list" where
  "mem_write pos bs buf = take pos buf @ bs @ drop (pos + length bs) buf"

text \<open>
  The three branches of the loop body for one block \<open>rd\<close> read from the archive;
  \<open>chunk\<close> is \<^verbatim>\<open>chunk_size\<close> after its adjustment, \<open>pos\<close> is
  \<^verbatim>\<open>fi->uncompressed_size - remaining_size\<close>, \<open>tb\<close> is \<^verbatim>\<open>target_buffer\<close> with the length it
  was allocated with. The result is \<open>Some (ok, target_buffer, output)\<close>, where \<open>ok\<close> is
  false when the branch returns 1, and \<open>None\<close> when the branch writes or reads past the
  end of a buffer: the decoder's output or the raw block does not fit into
  \<^verbatim>\<open>output_buffer\<close> at \<open>pos\<close>, the decoder's output does not fit into \<^verbatim>\<open>target_buffer\<close>, or,
  in the LZMA branch, \<^verbatim>\<open>fwrite\<close> takes \<^verbatim>\<open>dest_len\<close> bytes, which still holds \<open>chunk\<close>, from a
  shorter \<^verbatim>\<open>target_buffer\<close>.
\<close>

definition decompress_block ::
  "libs \<Rightarrow> nat \<Rightarrow> nat \<Rightarrow> byte list \<Rightarrow> byte list \<Rightarrow> sink
    \<Rightarrow> (bool \<times> byte list \<times> sink) option" where
  "decompress_block lb chunk pos rd tb out =
     (if is_zlib_block rd then
        (let (ok, dec) = uncompress lb chunk rd
         in case out of
              ToMem buf \<Rightarrow>
                if pos + length dec \<le> length buf
                then Some (ok, tb, ToMem (mem_write pos dec buf)) else None
            | ToFile f \<Rightarrow>
                if length dec \<le> length tb
                then Some (ok, mem_write 0 dec tb, ToFile (if ok then f @ dec else f))
                else None)
      else if is_lzma_block rd then
        (let (ok, dec) = lzma_decode lb chunk rd
         in case out of
              ToMem buf \<Rightarrow>
                if pos + length dec \<le> length buf
                then Some (ok, tb, ToMem (mem_write pos dec buf)) else None
            | ToFile f \<Rightarrow>
                if length dec \<le> length tb
                then (if ok
                      then (if chunk \<le> length tb
                            then Some (True, mem_write 0 dec tb,
                                       ToFile (f @ take chunk (mem_write 0 dec tb)))
                            else None)
                      else Some (False, mem_write 0 dec tb, ToFile f))
                else None)
      else
        (case out of
           ToMem buf \<Rightarrow>
             if pos + length rd \<le> length buf
             then Some (True, tb, ToMem (mem_write pos rd buf)) else None
         | ToFile f \<Rightarrow> Some (True, tb, ToFile (f @ rd))))"

text \<open>
  One iteration of \<^verbatim>\<open>while (remaining_size > 0)\<close>: \<open>Inl\<close> when the function leaves the
  loop in this iteration, \<open>Inr\<close> with the state for the next iteration otherwise.
  \<^verbatim>\<open>source_buffer\<close> and \<^verbatim>\<open>target_buffer\<close> are allocated together, with the same size, so
  the length of \<open>target_buffer st\<close> is the capacity of both. \<^verbatim>\<open>fread\<close> stores the bytes it
  finds, at most \<^verbatim>\<open>block_size\<close> of them, into \<^verbatim>\<open>source_buffer\<close>, also when they are fewer
  than asked for.
\<close>

definition decompress_step ::
  "libs \<Rightarrow> nat \<Rightarrow> nat list \<Rightarrow> unpak_state \<Rightarrow> unpak_state outcome + unpak_state" where
  "decompress_step lb usize bt st =
     (if open_block st \<ge> length bt then Inl OutOfBounds
      else
        let block_size = resolve_slot (chunk_size st) (bt ! open_block st);
            (rd, rest) = fread1 block_size (archive st)
        in if min block_size (length (archive st)) > length (target_buffer st)
           then Inl OutOfBounds
           else if length rd \<noteq> block_size then Inl (Return 1 (st\<lparr>archive := rest\<rparr>))
           else
             let chunk = (if remaining_size st < chunk_size st then remaining_size st
                          else chunk_size st)
             in case decompress_block lb chunk (usize - remaining_size st) rd
                       (target_buffer st) (dest st) of
                  None \<Rightarrow> Inl OutOfBounds
                | Some (ok, tb, out) \<Rightarrow>
                    (let st' = st\<lparr>chunk_size := chunk, archive := rest, target_buffer := tb,
                                  dest := out\<rparr>
                     in if \<not> ok then Inl (Return 1 st')
                        else Inr (st'\<lparr>remaining_size := remaining_size st - chunk,
                                      open_block := (open_block st + 1) mod 2 ^ 32\<rparr>)))"

text \<open>
  The loop can run forever (a block size of zero never reduces \<^verbatim>\<open>remaining_size\<close>),
  so it is a partial function: \<open>None\<close> means that it does not return.
\<close>

partial_function (option) decompress_entry_loop ::
  "libs \<Rightarrow> nat \<Rightarrow> nat list \<Rightarrow> unpak_state \<Rightarrow> unpak_state outcome option" where
  "decompress_entry_loop lb usize bt st =
     (if remaining_size st > 0
      then (case decompress_step lb usize bt st of
              Inl r \<Rightarrow> Some r
            | Inr st' \<Rightarrow> decompress_entry_loop lb usize bt st')
      else Some (Return 0 st))"

definition decompress_entry ::
  "libs \<Rightarrow> ARCHIVEINFO \<Rightarrow> byte list \<Rightarrow> byte list \<Rightarrow> sink \<Rightarrow> FILEINFO \<Rightarrow> nat list
    \<Rightarrow> unpak_state outcome option" where
  "decompress_entry lb ai file tb out fi bt =
     decompress_entry_loop lb (uncompressed_size fi) bt
       \<lparr>remaining_size = uncompressed_size fi, chunk_size = block_size ai,
        open_block = block_index fi, archive = drop (offset fi) file,
        target_buffer = tb, dest = out\<rparr>"

section \<open>Creating an archive (pak.c create_archive)\<close>

text \<open>
  A C string is the list of its bytes before the terminating NUL. \<^verbatim>\<open>strrchr(p, '/')\<close>
  is the suffix of \<open>p\<close> that starts at its last slash.
\<close>

definition starts_with_slash :: "byte list \<Rightarrow> bool" where
  "starts_with_slash p = (case p of [] \<Rightarrow> False | c # _ \<Rightarrow> c = 0x2F)"

definition strrchr_slash :: "byte list \<Rightarrow> byte list option" where
  "strrchr_slash p =
     (if 0x2F \<in> set p then Some (0x2F # rev (takeWhile (\<lambda>c. c \<noteq> 0x2F) (rev p))) else None)"

text \<open>The first loop over the input paths adds up the length of the manifest.\<close>

definition manifest_item_len :: "CONFIG \<Rightarrow> ARCHIVEINFO \<Rightarrow> byte list \<Rightarrow> nat" where
  "manifest_item_len cfg ai file =
     (let p = (if trim_path_flag cfg
               then (case strrchr_slash file of Some px \<Rightarrow> tl px | None \<Rightarrow> file)
               else file)
      in if archive_flags ai AND AF_ABSPATH \<noteq> 0
         then (if \<not> starts_with_slash p then length p + 1 else length p)
         else length p - length (takeWhile (\<lambda>c. c = 0x2F) p))"

primrec manifest_len_loop :: "CONFIG \<Rightarrow> ARCHIVEINFO \<Rightarrow> nat \<Rightarrow> byte list list \<Rightarrow> nat" where
  "manifest_len_loop cfg ai i [] = 0"
| "manifest_len_loop cfg ai i (f # fs) =
     manifest_item_len cfg ai f + (if i < toc_entries ai - 1 then 1 else 0)
       + manifest_len_loop cfg ai (i + 1) fs"

text \<open>The second loop concatenates the names, separated by a line feed.\<close>

definition manifest_name :: "CONFIG \<Rightarrow> ARCHIVEINFO \<Rightarrow> byte list \<Rightarrow> byte list" where
  "manifest_name cfg ai file =
     (let fname = (if trim_path_flag cfg
                   then (case strrchr_slash file of Some px \<Rightarrow> px | None \<Rightarrow> file)
                   else file)
      in if archive_flags ai AND AF_ABSPATH \<noteq> 0
         then (if \<not> starts_with_slash fname then 0x2F # fname else fname)
         else dropWhile (\<lambda>c. c = 0x2F) fname)"

primrec manifest_loop :: "CONFIG \<Rightarrow> ARCHIVEINFO \<Rightarrow> nat \<Rightarrow> byte list list \<Rightarrow> byte list" where
  "manifest_loop cfg ai i [] = []"
| "manifest_loop cfg ai i (f # fs) =
     manifest_name cfg ai f @ (if i < toc_entries ai - 1 then [0x0A] else [])
       @ manifest_loop cfg ai (i + 1) fs"

text \<open>
  \<^verbatim>\<open>get_blocktable_size\<close> fills the sizes and block counts of the entries \<open>i, i + 1, \<dots>\<close>
  of the table and returns the number of blocks, or 0 when a \<^verbatim>\<open>stat\<close> fails. The table
  comes from \<^verbatim>\<open>malloc\<close>: \<open>heap i\<close> is what entry \<open>i\<close> holds before its first assignment.
\<close>

primrec get_blocktable_size ::
  "ARCHIVEINFO \<Rightarrow> (nat \<Rightarrow> FILEINFO) \<Rightarrow> nat \<Rightarrow> disk_file list \<Rightarrow> nat \<Rightarrow> nat \<times> FILEINFO list" where
  "get_blocktable_size ai heap i [] block_off = (block_off, [])"
| "get_blocktable_size ai heap i (f # fs) block_off =
     (case stat_size f of
        None \<Rightarrow> (0, [])
      | Some sz \<Rightarrow>
          let fi = (heap i)\<lparr>uncompressed_size := sz,
                     num_blocks := ((sz + block_size ai - 1) div block_size ai) mod 2 ^ 32\<rparr>;
              (r, fis) = get_blocktable_size ai heap (i + 1) fs
                           ((block_off + num_blocks fi) mod 2 ^ 32)
          in (r, fi # fis))"

text \<open>
  The loop over the files: \<open>None\<close> when a name cannot be opened (the archive is then
  removed and 1 returned). With \<open>num_threads > 0\<close> the blocks go through the worker
  pool, otherwise through \<^verbatim>\<open>compress_entry\<close>.
\<close>

primrec compress_files ::
  "libs \<Rightarrow> ARCHIVEINFO \<Rightarrow> CONFIG \<Rightarrow> ((byte list \<times> disk_file) \<times> FILEINFO) list \<Rightarrow> pak_state
    \<Rightarrow> (FILEINFO list \<times> pak_state) option" where
  "compress_files lb ai cfg [] s = Some ([], s)"
| "compress_files lb ai cfg (x # xs) s =
     (case fopen_rb (snd (fst x)) of
        None \<Rightarrow> None
      | Some fp \<Rightarrow>
          let fi = (snd x)\<lparr>filename := Some (fst (fst x))\<rparr>;
              (fi', s') = (if num_threads cfg > 0
                           then compress_entry_multi lb ai cfg fp fi s
                           else compress_entry lb ai cfg (Fp fp) fi s)
          in map_option (\<lambda>r. (fi' # fst r, snd r)) (compress_files lb ai cfg xs s'))"

text \<open>
  \<^verbatim>\<open>write_toc_table\<close>: 30 bytes per entry. The digest of entry 0 is zero, that of a
  file entry is the MD5 of its name (every file entry has got its name in the loop
  above).
\<close>

definition be128 :: "128 word \<Rightarrow> byte list" where
  "be128 w = map (\<lambda>i. ucast (drop_bit (8 * (15 - i)) w)) [0..<16]"

definition write_toc_entry :: "libs \<Rightarrow> ARCHIVEINFO \<Rightarrow> nat \<Rightarrow> FILEINFO \<Rightarrow> byte list" where
  "write_toc_entry lb ai i fi =
     (if i \<noteq> 0 then (case filename fi of Some nm \<Rightarrow> be128 (md5 lb nm)
                                         | None \<Rightarrow> replicate 16 0)
      else replicate 16 0)
     @ htonl (block_index fi) @ hton40 (uncompressed_size fi)
     @ hton40 ((offset fi + toc_length ai) mod 2 ^ 64)"

primrec write_toc_table_loop :: "libs \<Rightarrow> ARCHIVEINFO \<Rightarrow> nat \<Rightarrow> FILEINFO list \<Rightarrow> byte list" where
  "write_toc_table_loop lb ai i [] = []"
| "write_toc_table_loop lb ai i (fi # fis) =
     write_toc_entry lb ai i fi @ write_toc_table_loop lb ai (i + 1) fis"

definition write_toc_table :: "libs \<Rightarrow> ARCHIVEINFO \<Rightarrow> FILEINFO list \<Rightarrow> byte list" where
  "write_toc_table lb ai files_info_table =
     write_toc_table_loop lb ai 0 (take (toc_entries ai) files_info_table)"

text \<open>
  What \<^verbatim>\<open>create_archive\<close> finds outside: whether the output path exists, whether it can
  be created, and the content of the two tables that it gets from \<^verbatim>\<open>malloc\<close>.
  Allocation itself does not fail in the model.
\<close>

record pak_env =
  output_exists :: bool
  output_creatable :: bool
  heap :: "nat \<Rightarrow> FILEINFO"
  blocktable0 :: "nat \<Rightarrow> nat"

datatype pak_error = ArchiveExists | NoFilesToAdd | CannotCreate | ErrorProcessing

text \<open>
  The counts are 32-bit, the length of the table of contents is a \<^verbatim>\<open>size_t\<close> sum whose
  last product is 32-bit. The result is the content of the output file when 0 is
  returned. The header is written first, the entries from \<open>toc_length\<close> on, then the
  table of contents at offset 32 and the block-size table behind it.
\<close>

definition create_archive ::
  "libs \<Rightarrow> pak_env \<Rightarrow> CONFIG \<Rightarrow> ARCHIVEINFO \<Rightarrow> (byte list \<times> disk_file) list
    \<Rightarrow> pak_error + byte list" where
  "create_archive lb env cfg ai0 files =
     (if \<not> overwrite_flag cfg \<and> output_exists env then Inl ArchiveExists
      else
        let n = length files mod 2 ^ 32;
            fl = take n files;
            ai1 = ai0\<lparr>toc_entries := n\<rparr>;
            filenames_len = manifest_len_loop cfg ai1 0 (map fst fl);
            filenames = manifest_loop cfg ai1 0 (map fst fl);
            blocktable_size0 =
              ((filenames_len + block_size ai1 - 1) div block_size ai1) mod 2 ^ 32;
            fi0 = (heap env 0)\<lparr>uncompressed_size := filenames_len,
                    num_blocks := blocktable_size0\<rparr>;
            (bsize, fis) = get_blocktable_size ai1 (heap env) 1 (map snd fl) 0
        in if bsize = 0 then Inl NoFilesToAdd
           else
             let blocktable_size = (blocktable_size0 + bsize) mod 2 ^ 32;
                 ai2 = ai1\<lparr>toc_entries := (n + 1) mod 2 ^ 32\<rparr>;
                 ai = ai2\<lparr>toc_length :=
                        sizeof_PSARCHEADER + toc_entries ai2 * sizeof_PSARCTOC
                        + (blocktable_size * nat (get_blocktable_item_size ai2)) mod 2 ^ 32\<rparr>
             in if \<not> output_creatable env then Inl CannotCreate
                else
                  let s0 = \<lparr>archive_file = [], total_size = 0,
                            blocktable = blocktable0 env, blocktable_idx = 0\<rparr>;
                      (fi0', s1) = compress_entry lb ai cfg (Mem filenames) fi0 s0
                  in case compress_files lb ai cfg (zip fl fis) s1 of
                       None \<Rightarrow> Inl ErrorProcessing
                     | Some (fis', s2) \<Rightarrow>
                         let toc = write_toc_table lb ai (fi0' # fis')
                         in Inr (pwrite (sizeof_PSARCHEADER + length toc)
                                   (write_blocktable ai (blocktable s2) blocktable_size)
                                   (pwrite sizeof_PSARCHEADER toc
                                      (pwrite (toc_length ai) (archive_file s2)
                                         (pwrite 0 (write_header ai) [])))))"

section \<open>Reading the manifest (unpak.c read_filenames)\<close>

text \<open>
  All tokens that \<^verbatim>\<open>strtok\<close> with the delimiter line feed finds in a C string: the
  maximal runs of other bytes. \<open>cur\<close> is the token collected so far.
\<close>

primrec strtok_loop :: "byte list \<Rightarrow> byte list \<Rightarrow> byte list list" where
  "strtok_loop cur [] = (if cur = [] then [] else [cur])"
| "strtok_loop cur (c # cs) =
     (if c = 0x0A then (if cur = [] then strtok_loop [] cs else cur # strtok_loop [] cs)
      else strtok_loop (cur @ [c]) cs)"

definition cstring :: "byte list \<Rightarrow> byte list" where
  "cstring buf = takeWhile (\<lambda>c. c \<noteq> 0) buf"

text \<open>The loop that gives the entries 1, 2, \<dots> their names, as long as there are tokens.\<close>

fun assign_filenames :: "FILEINFO list \<Rightarrow> byte list list \<Rightarrow> FILEINFO list" where
  "assign_filenames (fi # fis) (t # ts) = fi\<lparr>filename := Some t\<rparr> # assign_filenames fis ts"
| "assign_filenames fis [] = fis"
| "assign_filenames [] ts = []"

text \<open>
  What \<^verbatim>\<open>process_archive\<close> finds outside: the memory that it does not initialise (the
  TOC struct, \<^verbatim>\<open>blk\<close>, the buffer for the names, \<^verbatim>\<open>target_buffer\<close>; a buffer is given
  by the byte found at each index) and the paths that \<^verbatim>\<open>fopen(..., "wb")\<close> can open.
\<close>

record unpak_env =
  toc0 :: "byte list"
  blk0 :: nat
  names0 :: "nat \<Rightarrow> byte"
  target_buffer0 :: "nat \<Rightarrow> byte"
  can_open_wb :: "byte list \<Rightarrow> bool"

text \<open>
  \<^verbatim>\<open>source_buffer\<close> and \<^verbatim>\<open>target_buffer\<close> are allocated by \<^verbatim>\<open>process_archive\<close> before the
  header is read, each with \<^verbatim>\<open>_ArchiveInfo.block_size * 2\<close> bytes (a 32-bit product) for
  the block size that the descriptor \<open>ai0\<close> holds at that moment. This is
  \<^verbatim>\<open>target_buffer\<close>; its length is the capacity of both.
\<close>

definition alloc_target_buffer :: "unpak_env \<Rightarrow> ARCHIVEINFO \<Rightarrow> byte list" where
  "alloc_target_buffer env ai0 = map (target_buffer0 env) [0..<(block_size ai0 * 2) mod 2 ^ 32]"

text \<open>
  \<^verbatim>\<open>read_filenames\<close>: entry 0 is decompressed into a buffer of
  \<open>uncompressed_size + 1\<close> bytes, which is then closed by a NUL and cut into tokens.
  The result is the table with the names, or the return value 1 (\<open>Return 1\<close> with
  the table as it was). \<open>tb\<close> is \<^verbatim>\<open>target_buffer\<close>.
\<close>

definition read_filenames ::
  "libs \<Rightarrow> unpak_env \<Rightarrow> ARCHIVEINFO \<Rightarrow> byte list \<Rightarrow> byte list \<Rightarrow> FILEINFO list \<Rightarrow> nat list
    \<Rightarrow> FILEINFO list outcome option" where
  "read_filenames lb env ai file tb files_info_table bt =
     (case files_info_table of
        [] \<Rightarrow> Some OutOfBounds
      | fi0 # fis \<Rightarrow>
          (case decompress_entry lb ai file tb
                  (ToMem (map (names0 env) [0..<uncompressed_size fi0 + 1])) fi0 bt of
             None \<Rightarrow> None
           | Some OutOfBounds \<Rightarrow> Some OutOfBounds
           | Some (Return rc st) \<Rightarrow>
               if rc \<noteq> 0 then Some (Return 1 files_info_table)
               else (case dest st of
                       ToMem names \<Rightarrow>
                         Some (Return 0 (fi0 # assign_filenames
                                 (take (toc_entries ai - 1) fis)
                                 (strtok_loop [] (cstring (names[uncompressed_size fi0 := 0])))
                               @ drop (toc_entries ai - 1) fis))
                     | ToFile f \<Rightarrow> Some (Return 1 files_info_table))))"

section \<open>Extracting (unpak.c decompress_files, process_archive)\<close>

text \<open>\<^verbatim>\<open>lcase\<close> with \<^verbatim>\<open>tolower\<close> in the C locale.\<close>

definition tolower :: "byte \<Rightarrow> byte" where
  "tolower c = (if 0x41 \<le> c \<and> c \<le> 0x5A then c + 0x20 else c)"

definition lcase :: "byte list \<Rightarrow> byte list" where
  "lcase s = map tolower s"

text \<open>
  The hash set (hashset.c) is a set of strings: adding a member twice keeps one copy,
  deleting removes it, the hash only selects the bucket. It is the list of its members.
\<close>

definition hashset_add :: "byte list list \<Rightarrow> byte list \<Rightarrow> byte list list" where
  "hashset_add hset v = (if v \<in> set hset then hset else v # hset)"

definition hashset_contains :: "byte list list \<Rightarrow> byte list \<Rightarrow> bool" where
  "hashset_contains hset v \<longleftrightarrow> v \<in> set hset"

definition hashset_del :: "byte list list \<Rightarrow> byte list \<Rightarrow> byte list list" where
  "hashset_del hset v = remove1 v hset"

text \<open>
  The state of the extraction: the files on disk (path to content), the three static
  counters, the set of requested names (\<open>None\<close> when every entry is extracted),
  \<^verbatim>\<open>target_buffer\<close>, and the status reported for each processed entry.
\<close>

record extract_state =
  disk :: "byte list \<rightharpoonup> byte list"
  total_bytes :: nat
  errors :: nat
  successful :: nat
  hset :: "byte list list option"
  tbuf :: "byte list"
  reported :: "(byte list \<times> string) list"

text \<open>The path that is opened for an entry name.\<close>

definition output_path :: "libs \<Rightarrow> CONFIG \<Rightarrow> byte list \<Rightarrow> byte list" where
  "output_path lb cfg name =
     (let outdir0 = dirname lb name;
          outfile = basename lb name;
          outdir = (if starts_with_slash outdir0 \<or> outdir0 = [0x2E] then tl outdir0
                    else outdir0);
          filepath = outdir @ (if outdir \<noteq> [] then [0x2F] else []) @ outfile
      in if trim_path_flag cfg
         then (case strrchr_slash filepath of Some px \<Rightarrow> tl px | None \<Rightarrow> filepath)
         else filepath)"

text \<open>Whether the entry name is among the requested ones, and the set afterwards.\<close>

definition entry_selected :: "ARCHIVEINFO \<Rightarrow> byte list list option \<Rightarrow> byte list \<Rightarrow> bool" where
  "entry_selected ai hs name =
     (case hs of
        None \<Rightarrow> True
      | Some h \<Rightarrow> if archive_flags ai AND AF_ICASE \<noteq> 0 then hashset_contains h (lcase name)
                  else hashset_contains h name)"

text \<open>
  One iteration of the loop over the entries for a selected entry. A file entry
  without a name (a \<^verbatim>\<open>NULL\<close> pointer handed to \<^verbatim>\<open>strdup\<close>) is undefined behaviour.
\<close>

definition extract_entry ::
  "libs \<Rightarrow> unpak_env \<Rightarrow> CONFIG \<Rightarrow> ARCHIVEINFO \<Rightarrow> byte list \<Rightarrow> nat list \<Rightarrow> FILEINFO
    \<Rightarrow> byte list \<Rightarrow> extract_state \<Rightarrow> extract_state outcome option" where
  "extract_entry lb env cfg ai file bt fi name es =
     (let path = output_path lb cfg name;
          fileexists = (disk es path \<noteq> None)
      in if fileexists \<and> \<not> overwrite_flag cfg then
           (if skip_existing_files_flag cfg
            then Some (Return 0 (es\<lparr>total_bytes := total_bytes es + uncompressed_size fi,
                                     successful := successful es + 1,
                                     reported := reported es @ [(name, ''skipped (file exists)'')]\<rparr>))
            else Some (Return 0 (es\<lparr>errors := errors es + 1,
                                     reported := reported es @ [(name, ''fail (file already exists)'')]\<rparr>)))
         else if can_open_wb env path then
           (case decompress_entry lb ai file (tbuf es) (ToFile []) fi bt of
              None \<Rightarrow> None
            | Some OutOfBounds \<Rightarrow> Some OutOfBounds
            | Some (Return rc st) \<Rightarrow>
                let written = (case dest st of ToFile f \<Rightarrow> f | ToMem buf \<Rightarrow> []);
                    es' = es\<lparr>disk := (disk es)(path \<mapsto> written), tbuf := target_buffer st\<rparr>
                in if rc \<noteq> 0
                   then Some (Return 0 (es'\<lparr>errors := errors es + 1,
                                           reported := reported es @ [(name, ''fail'')]\<rparr>))
                   else Some (Return 0 (es'\<lparr>total_bytes := total_bytes es + uncompressed_size fi,
                                           successful := successful es + 1,
                                           reported := reported es @ [(name, ''ok'')]\<rparr>)))
         else Some (Return 0 (es\<lparr>errors := errors es + 1,
                                 reported := reported es @ [(name, ''fail'')]\<rparr>)))"

text \<open>The loop over the entries 1, 2, \<dots> of the table.\<close>

primrec decompress_files_loop ::
  "libs \<Rightarrow> unpak_env \<Rightarrow> CONFIG \<Rightarrow> ARCHIVEINFO \<Rightarrow> byte list \<Rightarrow> nat list \<Rightarrow> FILEINFO list
    \<Rightarrow> extract_state \<Rightarrow> extract_state outcome option" where
  "decompress_files_loop lb env cfg ai file bt [] es = Some (Return 0 es)"
| "decompress_files_loop lb env cfg ai file bt (fi # fis) es =
     (case filename fi of
        None \<Rightarrow> (if hset es \<noteq> None \<and> archive_flags ai AND AF_ICASE = 0
                 then decompress_files_loop lb env cfg ai file bt fis es
                 else Some OutOfBounds)
      | Some name \<Rightarrow>
          if \<not> entry_selected ai (hset es) name
          then decompress_files_loop lb env cfg ai file bt fis es
          else (case extract_entry lb env cfg ai file bt fi name
                       (es\<lparr>hset := map_option (\<lambda>h. hashset_del h name) (hset es)\<rparr>) of
                  None \<Rightarrow> None
                | Some OutOfBounds \<Rightarrow> Some OutOfBounds
                | Some (Return rc es') \<Rightarrow> decompress_files_loop lb env cfg ai file bt fis es'))"

text \<open>
  \<^verbatim>\<open>decompress_files\<close>: the requested names go into the hash set (in lower case when
  the archive ignores case); the return value is 2 when the error counter is positive.
\<close>

definition decompress_files ::
  "libs \<Rightarrow> unpak_env \<Rightarrow> CONFIG \<Rightarrow> ARCHIVEINFO \<Rightarrow> byte list \<Rightarrow> FILEINFO list \<Rightarrow> nat list
    \<Rightarrow> byte list list \<Rightarrow> extract_state \<Rightarrow> extract_state outcome option" where
  "decompress_files lb env cfg ai file files_info_table bt files es =
     (let hs = (if files \<noteq> []
                then Some (foldl (\<lambda>h f. hashset_add h
                              (if archive_flags ai AND AF_ICASE \<noteq> 0 then lcase f else f)) [] files)
                else None)
      in case decompress_files_loop lb env cfg ai file bt
                (take (toc_entries ai - 1) (tl files_info_table)) (es\<lparr>hset := hs\<rparr>) of
           None \<Rightarrow> None
         | Some OutOfBounds \<Rightarrow> Some OutOfBounds
         | Some (Return rc es') \<Rightarrow> Some (Return (if errors es' > 0 then 2 else 0) es'))"

text \<open>
  \<^verbatim>\<open>process_archive\<close> in extract mode (mode 2), for an archive file that can be opened:
  header, table of contents, block-size table, names, then the extraction. \<open>ai0\<close> is
  the global descriptor before the header is read; the counters start at zero.
\<close>

definition initial_extract_state ::
  "unpak_env \<Rightarrow> ARCHIVEINFO \<Rightarrow> (byte list \<rightharpoonup> byte list) \<Rightarrow> extract_state" where
  "initial_extract_state env ai0 d =
     \<lparr>disk = d, total_bytes = 0, errors = 0, successful = 0, hset = None,
      tbuf = alloc_target_buffer env ai0, reported = []\<rparr>"

definition process_archive ::
  "libs \<Rightarrow> unpak_env \<Rightarrow> CONFIG \<Rightarrow> ARCHIVEINFO \<Rightarrow> byte list \<Rightarrow> byte list list
    \<Rightarrow> (byte list \<rightharpoonup> byte list) \<Rightarrow> extract_state outcome option" where
  "process_archive lb env cfg ai0 file files d =
     (case read_header ai0 file of
        None \<Rightarrow> Some (Return 1 (initial_extract_state env ai0 d))
      | Some ai \<Rightarrow>
          (let (fit, rest) = read_toc_table ai (toc0 env) file
           in (case read_blocktable ai (blk0 env) rest of
                 None \<Rightarrow> Some (Return 1 (initial_extract_state env ai0 d))
               | Some bt \<Rightarrow>
                   (case read_filenames lb env ai file (alloc_target_buffer env ai0) fit bt of
                      None \<Rightarrow> None
                    | Some OutOfBounds \<Rightarrow> Some OutOfBounds
                    | Some (Return rc fit') \<Rightarrow>
                        if rc \<noteq> 0 then Some (Return 1 (initial_extract_state env ai0 d))
                        else decompress_files lb env cfg ai file fit' bt files
                               (initial_extract_state env ai0 d)))))"



section \<open>The blocks of an entry\<close>

text \<open>
  The number of blocks of an entry, \<^verbatim>\<open>(uncompressed_size + block_size - 1) / block_size\<close>,
  and its data cut into that many blocks: every block but the last has \<open>bs\<close> bytes.
\<close>

definition nblocks :: "nat \<Rightarrow> nat \<Rightarrow> nat" where
  "nblocks usize bs = (usize + bs - 1) div bs"

primrec chop :: "nat \<Rightarrow> nat \<Rightarrow> 'a list \<Rightarrow> 'a list list" where
  "chop bs 0 xs = []"
| "chop bs (Suc n) xs = take bs xs # chop bs n (drop bs xs)"

text \<open>Storing a run of values in consecutive slots of the block-size table.\<close>

primrec store_slots :: "(nat \<Rightarrow> nat) \<Rightarrow> nat \<Rightarrow> nat list \<Rightarrow> (nat \<Rightarrow> nat)" where
  "store_slots bt idx [] = bt"
| "store_slots bt idx (v # vs) = store_slots (bt(idx := v)) ((idx + 1) mod 2 ^ 32) vs"



text \<open>The input that \<^verbatim>\<open>compress_entry\<close> has not read yet after \<open>bu\<close> bytes.\<close>

fun unread :: "input \<Rightarrow> nat \<Rightarrow> byte list" where
  "unread (Fp fp) bu = fp"
| "unread (Mem m) bu = drop bu m"

text \<open>
  The effect of writing one block on the writer's state, and the entry fields that the
  commit of a worker sets: the first block of an entry fixes its first slot and its
  offset, every block adds to its compressed size.
\<close>

definition emit :: "pak_state \<Rightarrow> byte list \<Rightarrow> pak_state" where
  "emit s w = s\<lparr>archive_file := archive_file s @ w,
               blocktable := (blocktable s)(blocktable_idx s := length w),
               blocktable_idx := (blocktable_idx s + 1) mod 2 ^ 32\<rparr>"

definition commit_fi :: "bool \<Rightarrow> pak_state \<Rightarrow> nat \<Rightarrow> FILEINFO \<Rightarrow> FILEINFO" where
  "commit_fi first s len fi =
     (if first then fi\<lparr>block_index := blocktable_idx s, offset := total_size s,
                       compressed_size := len\<rparr>
      else fi\<lparr>compressed_size := compressed_size fi + len\<rparr>)"

text \<open>
  The blocks that the writer emits for an entry with content \<open>c\<close>, given the function
  \<open>cb\<close> that compresses one block. An emitted block \<open>w\<close> can be decoded to its source
  block \<open>blk\<close> when the decoder that the reader selects by the signature of \<open>w\<close> gives
  \<open>blk\<close> back, or, without a signature, when \<open>w\<close> is \<open>blk\<close>.
\<close>

definition entry_blocks :: "(byte list \<Rightarrow> byte list) \<Rightarrow> nat \<Rightarrow> byte list \<Rightarrow> byte list list" where
  "entry_blocks cb bs c = map cb (chop bs (nblocks (length c) bs) c)"

definition block_decodable :: "libs \<Rightarrow> byte list \<Rightarrow> byte list \<Rightarrow> bool" where
  "block_decodable lb blk w =
     (if is_zlib_block w then uncompress lb (length blk) w = (True, blk)
      else if is_lzma_block w then lzma_decode lb (length blk) w = (True, blk)
      else w = blk)"

text \<open>What a decoded block adds to the destination of \<^verbatim>\<open>decompress_entry\<close>.\<close>

fun sink_write :: "sink \<Rightarrow> nat \<Rightarrow> byte list \<Rightarrow> sink" where
  "sink_write (ToFile f) pos bs = ToFile (f @ bs)"
| "sink_write (ToMem buf) pos bs = ToMem (mem_write pos bs buf)"

text \<open>A memory destination has room for the \<open>usize\<close> bytes of the entry.\<close>

fun sink_room :: "sink \<Rightarrow> nat \<Rightarrow> bool" where
  "sink_room (ToFile f) usize = True"
| "sink_room (ToMem buf) usize = (usize \<le> length buf)"

section \<open>Stand-ins for the external libraries\<close>

text \<open>
  To evaluate the model on concrete inputs the library parameters need values. The
  stand-in encoders frame their input behind the signature that the reader looks for
  (\<open>78 9C\<close>, or the XZ magic) and shorten only a run of one repeated byte; the
  decoders undo exactly that and refuse everything else, and an output that does not
  fit the capacity. The path functions follow POSIX for paths without a trailing slash.
\<close>

definition test_encode :: "byte list \<Rightarrow> byte list" where
  "test_encode src =
     (if src \<noteq> [] \<and> src = replicate (length src) (hd src)
      then [1, hd src] @ htonl (length src)
      else 0 # src)"

definition test_decode :: "nat \<Rightarrow> byte list \<Rightarrow> bool \<times> byte list" where
  "test_decode cap body =
     (case body of
        [] \<Rightarrow> (False, [])
      | t # r \<Rightarrow>
          if t = 0 then (if length r \<le> cap then (True, r) else (False, take cap r))
          else if t = 1 \<and> length r = 5
               then (if ntohl (tl r) \<le> cap then (True, replicate (ntohl (tl r)) (hd r))
                     else (False, replicate cap (hd r)))
               else (False, []))"

definition test_dirname :: "byte list \<Rightarrow> byte list" where
  "test_dirname p =
     (case strrchr_slash p of
        None \<Rightarrow> [0x2E]
      | Some px \<Rightarrow> if length px = length p then [0x2F]
                   else take (length p - length px) p)"

definition test_basename :: "byte list \<Rightarrow> byte list" where
  "test_basename p = (case strrchr_slash p of None \<Rightarrow> p | Some px \<Rightarrow> tl px)"

definition test_libs :: libs where
  "test_libs =
     \<lparr>compressBound = (\<lambda>n. n + n div 2 ^ 12 + n div 2 ^ 14 + n div 2 ^ 25 + 13),
      compress2 = (\<lambda>cap level src. take cap ([0x78, 0x9C] @ test_encode src)),
      lzma_encode = (\<lambda>cap level extreme src. Some (take cap (xz_magic @ test_encode src))),
      uncompress = (\<lambda>cap src. if take 2 src = [0x78, 0x9C] then test_decode cap (drop 2 src)
                               else (False, [])),
      lzma_decode = (\<lambda>cap src. if take 6 src = xz_magic then test_decode cap (drop 6 src)
                                else (False, [])),
      md5 = (\<lambda>name. 0),
      dirname = test_dirname,
      basename = test_basename\<rparr>"

section \<open>Sample inputs\<close>

definition zlib_16 :: ARCHIVEINFO where
  "zlib_16 = default_ArchiveInfo\<lparr>compression_type := PSARC_ZLIB, block_size := 16\<rparr>"

definition store_4 :: ARCHIVEINFO where
  "store_4 = default_ArchiveInfo\<lparr>block_size := 4\<rparr>"



definition empty_fi :: FILEINFO where
  "empty_fi = \<lparr>name_digest = [], filename = None, offset = 0, block_index = 0,
               num_blocks = 0, compressed_size = 0, uncompressed_size = 0\<rparr>"

definition six_fi :: FILEINFO where
  "six_fi = \<lparr>name_digest = [], filename = None, offset = 2, block_index = 0,
             num_blocks = 0, compressed_size = 0, uncompressed_size = 6\<rparr>"

definition empty_state :: pak_state where
  "empty_state = \<lparr>archive_file = [], total_size = 0, blocktable = (\<lambda>i. 0), blocktable_idx = 0\<rparr>"





text \<open>Freshly mapped memory: tables that hold zeros before their first assignment.\<close>

definition zero_FILEINFO :: FILEINFO where
  "zero_FILEINFO = \<lparr>name_digest = [], filename = None, offset = 0, block_index = 0,
                    num_blocks = 0, compressed_size = 0, uncompressed_size = 0\<rparr>"

definition sample_pak_env :: pak_env where
  "sample_pak_env =
     \<lparr>output_exists = False, output_creatable = True, heap = (\<lambda>i. zero_FILEINFO),
      blocktable0 = (\<lambda>i. 0)\<rparr>"

definition two_files :: "(byte list \<times> disk_file) list" where
  "two_files = [([0x61], Regular [0x68, 0x69]), ([0x65], Regular [])]"

section \<open>Verified properties: the header\<close>

lemma write_header_tag: "bytes_at 8 4 (write_header ai) = header_tag ai"
  by (simp add: write_header_def bytes_at_def magic_PSAR_def htonl_def header_tag_def
      tag_lzma_def tag_zlib_def)

lemma tags_differ: "tag_lzma \<noteq> tag_zlib" "tag_zlib \<noteq> tag_lzma"
  by (simp_all add: tag_lzma_def tag_zlib_def)

lemma read_header_codec:
  "read_header ai0 file = Some ai' \<Longrightarrow>
     compression_type ai' = (if bytes_at 8 4 file = tag_lzma then PSARC_LZMA else PSARC_ZLIB)"
  by (auto simp add: read_header_def split: if_splits)

lemmas hdr_eval = read_header_def write_header_def default_ArchiveInfo_def bytes_at_def htonl_def
  magic_PSAR_def header_tag_def tag_lzma_def tag_zlib_def sizeof_PSARCHEADER_def ntohl_def
  ntohs_def be_val_def PSARC_LZMA_def PSARC_ZLIB_def PSARC_STORE_def

text \<open>
  Claim C7. The codec tag that \<^verbatim>\<open>write_header\<close> puts at offset 8 is "lzma" exactly when
  the create codec is LZMA and "zlib" for every other codec (store included; the tag
  does not depend on how the blocks were stored). On read, the tag "lzma" gives the
  codec LZMA and any other tag gives zlib.
\<close>

theorem header_codec_tag:
  assumes "read_header ai0 file = Some ai'"
  shows "(bytes_at 8 4 (write_header ai) = tag_lzma \<longleftrightarrow> compression_type ai = PSARC_LZMA)
       \<and> (compression_type ai \<noteq> PSARC_LZMA \<longrightarrow> bytes_at 8 4 (write_header ai) = tag_zlib)
       \<and> (bytes_at 8 4 file = tag_lzma \<longrightarrow> compression_type ai' = PSARC_LZMA)
       \<and> (bytes_at 8 4 file \<noteq> tag_lzma \<longrightarrow> compression_type ai' = PSARC_ZLIB)"
  using read_header_codec[OF assms]
  by (simp add: write_header_tag header_tag_def tags_differ)

theorem header_codec_tag_witness:
  "read_header default_ArchiveInfo (write_header default_ArchiveInfo)
     = Some (default_ArchiveInfo\<lparr>compression_type := PSARC_ZLIB\<rparr>)
   \<and> compression_type default_ArchiveInfo = PSARC_STORE
   \<and> bytes_at 8 4 (write_header default_ArchiveInfo) = tag_zlib
   \<and> bytes_at 8 4 (write_header (default_ArchiveInfo\<lparr>compression_type := PSARC_LZMA\<rparr>)) = tag_lzma"
proof -
  have h: "read_header default_ArchiveInfo (write_header default_ArchiveInfo)
             = Some (default_ArchiveInfo\<lparr>compression_type := PSARC_ZLIB\<rparr>)"
    by (simp add: hdr_eval)
  have c: "compression_type default_ArchiveInfo = PSARC_STORE"
    by (simp add: default_ArchiveInfo_def)
  from header_codec_tag[OF h, of default_ArchiveInfo]
       header_codec_tag[OF h, of "default_ArchiveInfo\<lparr>compression_type := PSARC_LZMA\<rparr>"]
  show ?thesis using h c by (simp add: PSARC_STORE_def PSARC_LZMA_def)
qed

text \<open>
  Claim C6, as stated: an archive whose first four bytes are not "PSAR" is rejected.
  It is not: a header that starts with "XXXX" instead is read without an error, into
  the same descriptor as the header with the right magic.
\<close>

theorem read_header_magic_counterexample:
  "take 4 ([0x58, 0x58, 0x58, 0x58] @ drop 4 (write_header default_ArchiveInfo)) \<noteq> magic_PSAR
   \<and> read_header default_ArchiveInfo
        ([0x58, 0x58, 0x58, 0x58] @ drop 4 (write_header default_ArchiveInfo))
      = Some (default_ArchiveInfo\<lparr>compression_type := PSARC_ZLIB\<rparr>)"
  by (simp add: hdr_eval)

text \<open>
  Claim C6, amended. \<^verbatim>\<open>read_header\<close> fails exactly when fewer than 32 bytes can be
  read; the magic is not examined, so a file whose first four bytes are not "PSAR" is
  parsed like the same file with the right magic.
\<close>

theorem read_header_ignores_magic:
  assumes "length m = 4"
  shows "read_header ai (m @ rest) = read_header ai (magic_PSAR @ rest)
       \<and> (read_header ai file = None \<longleftrightarrow> length file < sizeof_PSARCHEADER)"
  using assms by (simp add: read_header_def bytes_at_def magic_PSAR_def)

theorem read_header_ignores_magic_witness:
  "length [0x58, 0x58, 0x58, 0x58 :: byte] = 4
   \<and> read_header default_ArchiveInfo
        ([0x58, 0x58, 0x58, 0x58] @ drop 4 (write_header default_ArchiveInfo))
       = read_header default_ArchiveInfo (magic_PSAR @ drop 4 (write_header default_ArchiveInfo))
   \<and> read_header default_ArchiveInfo (take 31 (write_header default_ArchiveInfo)) = None"
proof -
  have l: "length [0x58, 0x58, 0x58, 0x58 :: byte] = 4" by simp
  have s: "length (take 31 (write_header default_ArchiveInfo)) < sizeof_PSARCHEADER"
    by (simp add: sizeof_PSARCHEADER_def)
  from read_header_ignores_magic[OF l, of default_ArchiveInfo
         "drop 4 (write_header default_ArchiveInfo)" "take 31 (write_header default_ArchiveInfo)"]
  show ?thesis using l s by simp
qed

section \<open>Verified properties: byte order and block-size table items\<close>

lemma and_ff: "(v::nat) AND 0xff = v mod 2 ^ 8"
  using take_bit_eq_mask[of 8 v] by (simp add: take_bit_eq_mod mask_eq_exp_minus_1)

lemma and_ffff: "(v::nat) AND 0xffff = v mod 2 ^ 16"
  using take_bit_eq_mask[of 16 v] by (simp add: take_bit_eq_mod mask_eq_exp_minus_1)

lemma and_fffff: "(v::nat) AND 0x0fffff = v mod 2 ^ 20"
  using take_bit_eq_mask[of 20 v] by (simp add: take_bit_eq_mod mask_eq_exp_minus_1)

lemma unat_byte: "unat (of_nat n :: byte) = n mod 256"
  by (simp add: unat_of_nat)

lemma be_step: "(x::nat) mod (256 * c) = (x div 256 mod c) * 256 + x mod 256"
  by (simp add: mod_mult2_eq)

lemma be2: "(v::nat) div 256 mod 256 * 256 + v mod 256 = v mod 65536"
  using be_step[of v 256] by simp

lemma be3: "((v::nat) div 65536 mod 256 * 256 + v div 256 mod 256) * 256 + v mod 256 = v mod 16777216"
proof -
  have a: "v mod 16777216 = (v div 256 mod 65536) * 256 + v mod 256"
    using be_step[of v 65536] by simp
  have b: "v div 256 mod 65536 = (v div 65536 mod 256) * 256 + v div 256 mod 256"
    using be2[of "v div 256"] by (simp add: div_mult2_eq[symmetric])
  show ?thesis by (simp only: a b)
qed

lemma be4: "(((v::nat) div 16777216 mod 256 * 256 + v div 65536 mod 256) * 256 + v div 256 mod 256) * 256 + v mod 256 = v mod 4294967296"
proof -
  have a: "v mod 4294967296 = (v div 256 mod 16777216) * 256 + v mod 256"
    using be_step[of v 16777216] by simp
  have b: "v div 256 mod 16777216
             = ((v div 16777216 mod 256) * 256 + v div 65536 mod 256) * 256 + v div 256 mod 256"
    using be3[of "v div 256"] by (simp add: div_mult2_eq[symmetric])
  show ?thesis by (simp only: a b)
qed

lemma be5: "((((v::nat) div 4294967296 mod 256 * 256 + v div 16777216 mod 256) * 256 + v div 65536 mod 256) * 256 + v div 256 mod 256) * 256 + v mod 256 = v mod 1099511627776"
proof -
  have a: "v mod 1099511627776 = (v div 256 mod 4294967296) * 256 + v mod 256"
    using be_step[of v 4294967296] by simp
  have b: "v div 256 mod 4294967296
             = (((v div 4294967296 mod 256) * 256 + v div 16777216 mod 256) * 256
                 + v div 65536 mod 256) * 256 + v div 256 mod 256"
    using be4[of "v div 256"] by (simp add: div_mult2_eq[symmetric])
  show ?thesis by (simp only: a b)
qed

lemma be_val_htons: "be_val (htons v) = v mod 2 ^ 16"
  using be2[of v] by (simp add: be_val_def htons_def unat_byte)

lemma be_val_hton24: "be_val (hton24 v) = v mod 2 ^ 24"
  using be3[of v] by (simp add: be_val_def hton24_def unat_byte)

lemma be_val_htonl: "be_val (htonl v) = v mod 2 ^ 32"
  using be4[of v] by (simp add: be_val_def htonl_def unat_byte)

lemma be_val_hton40: "be_val (hton40 v) = v mod 2 ^ 40"
  using be5[of v] by (simp add: be_val_def hton40_def unat_byte)

lemma be_val_single: "be_val [of_nat n] = n mod 256"
  by (simp add: be_val_def unat_byte)

lemma length_hton [simp]:
  "length (htons v) = 2" "length (hton24 v) = 3" "length (htonl v) = 4" "length (hton40 v) = 5"
  by (simp_all add: htons_def hton24_def htonl_def hton40_def)

lemma item_size_cases:
  "block_size ai < 2 ^ 32 \<Longrightarrow> get_blocktable_item_size ai \<in> {1, 2, 3, 4}"
  by (simp add: get_blocktable_item_size_def)

text \<open>
  Claim C3, amended. The item written for a block is exactly \<open>W\<close> bytes (\<open>W\<close> the item
  width of the block size) whose big-endian value is the emitted byte count; only the
  count \<open>2 ^ (8 * W)\<close>, which is a full block of the block size \<open>2 ^ (8 * W)\<close>, is
  written as the sentinel 0. A full block of any other block size is written as its
  count. In both cases the reader's rule (0 means the block size) gives the emitted
  count back. For \<open>W = 3\<close> this is stated for counts below \<open>2 ^ 20\<close> and for \<open>2 ^ 24\<close>.
\<close>

theorem blocktable_item_serialized:
  assumes "block_size ai < 2 ^ 32" and "emitted \<le> block_size ai"
    and "get_blocktable_item_size ai = 3 \<longrightarrow> emitted < 2 ^ 20 \<or> emitted = 2 ^ 24"
  shows "length (write_blocktable_item (get_blocktable_item_size ai) emitted)
           = nat (get_blocktable_item_size ai)
       \<and> be_val (write_blocktable_item (get_blocktable_item_size ai) emitted)
           = (if emitted = 2 ^ (8 * nat (get_blocktable_item_size ai)) then 0 else emitted)
       \<and> (0 < emitted \<longrightarrow>
            resolve_slot (block_size ai)
              (be_val (write_blocktable_item (get_blocktable_item_size ai) emitted)) = emitted)"
proof -
  consider (1) "block_size ai \<le> 0x100"
    | (2) "0x100 < block_size ai" "block_size ai \<le> 0x10000"
    | (3) "0x10000 < block_size ai" "block_size ai \<le> 0x1000000"
    | (4) "0x1000000 < block_size ai"
    by linarith
  then show ?thesis
  proof cases
    case 1
    then have W: "get_blocktable_item_size ai = 1" by (simp add: get_blocktable_item_size_def)
    have "emitted = 256 \<or> emitted < 256" using assms(2) 1 by auto
    then show ?thesis using assms(2) 1
      by (auto simp add: W write_blocktable_item_def and_ff be_val_single resolve_slot_def)
  next
    case 2
    then have W: "get_blocktable_item_size ai = 2" by (simp add: get_blocktable_item_size_def)
    have "emitted = 65536 \<or> emitted < 65536" using assms(2) 2 by auto
    then show ?thesis using assms(2) 2
      by (auto simp add: W write_blocktable_item_def and_ffff be_val_htons resolve_slot_def)
  next
    case 3
    then have W: "get_blocktable_item_size ai = 3" by (simp add: get_blocktable_item_size_def)
    have "emitted = 16777216 \<or> emitted < 1048576" using assms(3) W by auto
    then show ?thesis using assms(2) 3
      by (auto simp add: W write_blocktable_item_def and_fffff be_val_hton24 resolve_slot_def)
  next
    case 4
    then have W: "get_blocktable_item_size ai = 4" using assms(1) by (simp add: get_blocktable_item_size_def)
    have "emitted < 4294967296" using assms(1,2) by auto
    then show ?thesis using assms(1,2) 4
      by (auto simp add: W write_blocktable_item_def be_val_htonl resolve_slot_def)
  qed
qed


theorem blocktable_item_serialized_witness:
  "block_size (default_ArchiveInfo\<lparr>block_size := 1024\<rparr>) < 2 ^ 32
   \<and> (1024::nat) \<le> block_size (default_ArchiveInfo\<lparr>block_size := 1024\<rparr>)
   \<and> get_blocktable_item_size (default_ArchiveInfo\<lparr>block_size := 1024\<rparr>) = 2
   \<and> length (write_blocktable_item 2 1024) = 2
   \<and> be_val (write_blocktable_item 2 1024) = 1024
   \<and> resolve_slot 1024 (be_val (write_blocktable_item 2 1024)) = 1024"
proof -
  let ?ai = "default_ArchiveInfo\<lparr>block_size := 1024\<rparr>"
  have a: "block_size ?ai < 2 ^ 32" by (simp add: default_ArchiveInfo_def)
  have b: "(1024::nat) \<le> block_size ?ai" by (simp add: default_ArchiveInfo_def)
  have W: "get_blocktable_item_size ?ai = 2"
    by (simp add: get_blocktable_item_size_def default_ArchiveInfo_def)
  have c: "get_blocktable_item_size ?ai = 3 \<longrightarrow> (1024::nat) < 2 ^ 20 \<or> (1024::nat) = 2 ^ 24"
    by simp
  from blocktable_item_serialized[OF a b c] show ?thesis using a b W by (simp add: resolve_slot_def)
qed

text \<open>
  Claim C3, as stated: a block whose emitted size equals the block size is recorded as
  the sentinel 0. With the block size 1024 (two-byte items) a full block of 1024 bytes
  is recorded as \<open>04 00\<close>, the number 1024.
\<close>

theorem blocktable_sentinel_counterexample:
  "get_blocktable_item_size (default_ArchiveInfo\<lparr>block_size := 1024\<rparr>) = 2
   \<and> write_blocktable (default_ArchiveInfo\<lparr>block_size := 1024\<rparr>) (\<lambda>i. 1024) 1 = [0x04, 0x00]
   \<and> be_val [0x04, 0x00] \<noteq> 0"
  by (simp add: write_blocktable_def get_blocktable_item_size_def default_ArchiveInfo_def
      write_blocktable_item_def htons_def be_val_def)

text \<open>
  The three-byte case masks the value with \<open>0x0fffff\<close>, which has 20 bits: with the
  block size \<open>2 ^ 21\<close> a block of \<open>2 ^ 20 + 5\<close> emitted bytes is recorded as 5.
\<close>

lemma blocktable_mask_slip:
  "get_blocktable_item_size (default_ArchiveInfo\<lparr>block_size := 2097152\<rparr>) = 3
   \<and> write_blocktable_item 3 1048581 = [0x00, 0x00, 0x05]"
  by (simp add: get_blocktable_item_size_def default_ArchiveInfo_def
      write_blocktable_item_def hton24_def)

section \<open>Verified properties: codec detection\<close>

text \<open>
  Claim C5, as stated: the codec is chosen from the leading bytes alone. A payload that
  consists of the two bytes \<open>78 9C\<close>, or of the six bytes of the XZ magic, has the
  leading bytes of the claim and is copied verbatim, to a file and to memory alike.
\<close>

theorem codec_detection_counterexample:
  "decompress_block test_libs 2 0 [0x78, 0x9C] [0, 0, 0, 0] (ToFile [])
       = Some (True, [0, 0, 0, 0], ToFile [0x78, 0x9C])
   \<and> decompress_block test_libs 6 0 [0xFD, 0x37, 0x7A, 0x58, 0x5A, 0x00] [0, 0, 0, 0] (ToFile [])
       = Some (True, [0, 0, 0, 0], ToFile [0xFD, 0x37, 0x7A, 0x58, 0x5A, 0x00])
   \<and> decompress_block test_libs 2 0 [0x78, 0x9C] [0, 0, 0, 0] (ToMem [1, 2, 3])
       = Some (True, [0, 0, 0, 0], ToMem [0x78, 0x9C, 3])"
  by (simp add: decompress_block_def is_zlib_block_def is_lzma_block_def xz_magic_def
      mem_write_def)

text \<open>
  Claim C5, amended. A block payload goes to zlib when it is longer than 2 bytes and
  starts with \<open>78\<close> and one of \<open>01, 5E, 9C, DA\<close>; to the LZMA decoder when it is
  longer than 6 bytes and starts with the XZ magic; otherwise it is copied verbatim.
  This holds for both destinations, the memory buffer (at the position of the block)
  and the output file, with the result spelled out for each; \<open>None\<close> is a
  write past the end of a buffer. The codec of the header plays no part in
  decompressing an entry.
\<close>

theorem codec_detection:
  "decompress_block lb chunk pos rd tb out =
     (if length rd > 2 \<and> rd ! 0 = 0x78 \<and> rd ! 1 \<in> {0x01, 0x5E, 0x9C, 0xDA}
      then (let ok = fst (uncompress lb chunk rd); dec = snd (uncompress lb chunk rd)
            in case out of
                 ToMem buf \<Rightarrow>
                   if pos + length dec \<le> length buf
                   then Some (ok, tb, ToMem (mem_write pos dec buf)) else None
               | ToFile f \<Rightarrow>
                   if length dec \<le> length tb
                   then Some (ok, mem_write 0 dec tb, ToFile (if ok then f @ dec else f))
                   else None)
      else if length rd > 6 \<and> take 6 rd = [0xFD, 0x37, 0x7A, 0x58, 0x5A, 0x00]
      then (let ok = fst (lzma_decode lb chunk rd); dec = snd (lzma_decode lb chunk rd)
            in case out of
                 ToMem buf \<Rightarrow>
                   if pos + length dec \<le> length buf
                   then Some (ok, tb, ToMem (mem_write pos dec buf)) else None
               | ToFile f \<Rightarrow>
                   if length dec \<le> length tb
                   then (if ok
                         then (if chunk \<le> length tb
                               then Some (True, mem_write 0 dec tb,
                                          ToFile (f @ take chunk (mem_write 0 dec tb)))
                               else None)
                         else Some (False, mem_write 0 dec tb, ToFile f))
                   else None)
      else (case out of
              ToMem buf \<Rightarrow>
                if pos + length rd \<le> length buf
                then Some (True, tb, ToMem (mem_write pos rd buf)) else None
            | ToFile f \<Rightarrow> Some (True, tb, ToFile (f @ rd))))
   \<and> decompress_entry lb (ai\<lparr>compression_type := c\<rparr>) file tb out fi bt
       = decompress_entry lb ai file tb out fi bt"
proof -
  have z: "is_zlib_block rd \<longleftrightarrow> length rd > 2 \<and> rd ! 0 = 0x78 \<and> rd ! 1 \<in> {0x01, 0x5E, 0x9C, 0xDA}"
    by (auto simp add: is_zlib_block_def)
  have l: "is_lzma_block rd \<longleftrightarrow> length rd > 6 \<and> take 6 rd = [0xFD, 0x37, 0x7A, 0x58, 0x5A, 0x00]"
    by (simp add: is_lzma_block_def xz_magic_def)
  have e: "decompress_entry lb (ai\<lparr>compression_type := c\<rparr>) file tb out fi bt
       = decompress_entry lb ai file tb out fi bt"
    by (simp add: decompress_entry_def)
  show ?thesis
    unfolding decompress_block_def z l Let_def case_prod_beta
    by (intro conjI e) (cases out; simp)
qed

theorem codec_detection_witness:
  "decompress_block test_libs 8 0 [0x78, 0x9C, 0x00, 0x41] [0, 0, 0, 0, 0, 0, 0, 0] (ToFile [])
       = Some (True, [0x41, 0, 0, 0, 0, 0, 0, 0], ToFile [0x41])
   \<and> decompress_block test_libs 8 1 [0x78, 0x9C, 0x00, 0x41] [0, 0, 0, 0, 0, 0, 0, 0] (ToMem [1, 2, 3])
       = Some (True, [0, 0, 0, 0, 0, 0, 0, 0], ToMem [1, 0x41, 3])
   \<and> decompress_block test_libs 8 0 [0x78, 0x9D, 0x00, 0x41] [0, 0, 0, 0, 0, 0, 0, 0] (ToFile [])
       = Some (True, [0, 0, 0, 0, 0, 0, 0, 0], ToFile [0x78, 0x9D, 0x00, 0x41])
   \<and> decompress_block test_libs 8 0 [0x78, 0x9D, 0x00, 0x41] [0, 0, 0, 0, 0, 0, 0, 0] (ToMem [1, 2, 3, 4, 5])
       = Some (True, [0, 0, 0, 0, 0, 0, 0, 0], ToMem [0x78, 0x9D, 0x00, 0x41, 5])"
  using codec_detection[of test_libs 8 0 "[0x78, 0x9C, 0x00, 0x41]" "[0, 0, 0, 0, 0, 0, 0, 0]" "ToFile []"]
        codec_detection[of test_libs 8 1 "[0x78, 0x9C, 0x00, 0x41]" "[0, 0, 0, 0, 0, 0, 0, 0]" "ToMem [1, 2, 3]"]
        codec_detection[of test_libs 8 0 "[0x78, 0x9D, 0x00, 0x41]" "[0, 0, 0, 0, 0, 0, 0, 0]" "ToFile []"]
        codec_detection[of test_libs 8 0 "[0x78, 0x9D, 0x00, 0x41]" "[0, 0, 0, 0, 0, 0, 0, 0]" "ToMem [1, 2, 3, 4, 5]"]
  by (simp add: test_libs_def test_decode_def mem_write_def)

section \<open>Verified properties: the block pipeline\<close>

lemma nblocks_0 [simp]: "0 < bs \<Longrightarrow> nblocks 0 bs = 0"
  by (simp add: nblocks_def)

lemma nblocks_pos: "0 < bs \<Longrightarrow> 0 < r \<Longrightarrow> 0 < nblocks r bs"
  by (simp add: nblocks_def div_greater_zero_iff)

lemma nblocks_le: "0 < bs \<Longrightarrow> 0 < r \<Longrightarrow> r \<le> bs \<Longrightarrow> nblocks r bs = 1"
proof -
  assume a: "0 < bs" "0 < r" "r \<le> bs"
  then have "bs \<le> r + bs - 1" "r + bs - 1 < 2 * bs" by auto
  then have "(r + bs - 1) div bs = 1"
    by (intro div_nat_eqI) simp_all
  then show ?thesis by (simp add: nblocks_def)
qed

lemma nblocks_step: "0 < bs \<Longrightarrow> bs < r \<Longrightarrow> nblocks r bs = Suc (nblocks (r - bs) bs)"
proof -
  assume a: "0 < bs" "bs < r"
  then have "(r + bs - 1) div bs = ((r - bs + bs - 1) + bs) div bs"
    by (intro arg_cong[where f = "\<lambda>x. x div bs"]) auto
  also have "\<dots> = (r - bs + bs - 1) div bs + 1"
    using a(1) by (intro div_add_self2) simp
  finally show ?thesis by (simp add: nblocks_def)
qed

lemma nblocks_Suc_cases:
  assumes "0 < bs" "nblocks r bs = Suc n"
  shows "(n = 0 \<and> 0 < r \<and> r \<le> bs) \<or> (0 < n \<and> bs < r \<and> nblocks (r - bs) bs = n)"
proof -
  have r: "0 < r" using assms by (cases "r = 0") auto
  show ?thesis
  proof (cases "r \<le> bs")
    case True
    then show ?thesis using nblocks_le[OF assms(1) r True] assms r by simp
  next
    case False
    then have b: "bs < r" by simp
    have "0 < r - bs" using b by simp
    then have "0 < nblocks (r - bs) bs" using nblocks_pos assms(1) by blast
    then show ?thesis using nblocks_step[OF assms(1) b] assms(2) b by simp
  qed
qed

lemma concat_chop: "0 < bs \<Longrightarrow> n = nblocks (length xs) bs \<Longrightarrow> concat (chop bs n xs) = xs"
proof (induction n arbitrary: xs)
  case 0
  have "xs = []"
  proof (rule ccontr)
    assume "xs \<noteq> []"
    then have "0 < length xs" by simp
    from nblocks_pos[OF "0.prems"(1) this] "0.prems"(2) show False by simp
  qed
  then show ?case by simp
next
  case (Suc n)
  from nblocks_Suc_cases[OF Suc.prems(1) Suc.prems(2)[symmetric]]
  show ?case
  proof
    assume "n = 0 \<and> 0 < length xs \<and> length xs \<le> bs"
    then show ?thesis by simp
  next
    assume a: "0 < n \<and> bs < length xs \<and> nblocks (length xs - bs) bs = n"
    then have "concat (chop bs n (drop bs xs)) = drop bs xs"
      using Suc.IH[of "drop bs xs"] Suc.prems(1) by simp
    then show ?thesis by simp
  qed
qed

lemma length_chop [simp]: "length (chop bs n xs) = n"
  by (induction n arbitrary: xs) auto

lemma chop_nth: "k < n \<Longrightarrow> chop bs n xs ! k = take bs (drop (k * bs) xs)"
proof (induction n arbitrary: xs k)
  case 0
  then show ?case by simp
next
  case (Suc n)
  show ?case
  proof (cases k)
    case 0
    then show ?thesis by simp
  next
    case (Suc j)
    then have "j < n" using Suc.prems by simp
    from Suc.IH[OF this, of "drop bs xs"] show ?thesis using Suc by (simp add: add.commute)
  qed
qed




lemma take_length_take: "take (length (take k xs)) xs = take k xs"
  by (simp add: min_def)

lemma read_block_take:
  "read_block inp bu (length (take k (unread inp bu)))
     = (take k (unread inp bu), snd (read_block inp bu (length (take k (unread inp bu)))))"
proof (cases inp)
  case (Mem m)
  then show ?thesis by (simp add: bytes_at_def take_length_take del: length_take)
next
  case (Fp fp)
  have "length (take k fp) \<le> length fp" by simp
  then show ?thesis using Fp by (simp add: fread1_def take_length_take del: length_take)
qed

lemma unread_after:
  "unread (snd (read_block inp bu (length (take k (unread inp bu))))) (bu + length (take k (unread inp bu)))
     = drop k (unread inp bu)"
proof (cases inp)
  case (Mem m)
  have "drop (bu + min (length m - bu) k) m = drop (k + bu) m"
    by (cases "k \<le> length m - bu") (simp_all add: min_def add.commute)
  then show ?thesis using Mem by simp
next
  case (Fp fp)
  have "drop (min (length fp) k) fp = drop k fp"
    by (cases "k \<le> length fp") (simp_all add: min_def)
  then show ?thesis using Fp by (simp add: fread1_def)
qed

lemma to_read_eq:
  assumes "0 < bs" "nblocks (length u) bs = Suc n" "usize - bu = length u"
  shows "(if Suc n > 1 then bs else min (sub_u64 usize bu) bs) = length (take bs u)"
proof -
  from nblocks_Suc_cases[OF assms(1,2)]
  show ?thesis
  proof
    assume a: "n = 0 \<and> 0 < length u \<and> length u \<le> bs"
    then have "bu \<le> usize" using assms(3) by linarith
    then have "sub_u64 usize bu = length u" using assms(3) by (simp add: sub_u64_def)
    then show ?thesis using a by (simp add: min_def)
  next
    assume "0 < n \<and> bs < length u \<and> nblocks (length u - bs) bs = n"
    then show ?thesis by (simp add: min_def)
  qed
qed

lemma nblocks_drop:
  assumes "0 < bs" "nblocks (length u) bs = Suc n"
  shows "nblocks (length (drop bs u)) bs = n"
proof -
  from nblocks_Suc_cases[OF assms(1,2)]
  show ?thesis
  proof
    assume "n = 0 \<and> 0 < length u \<and> length u \<le> bs"
    then show ?thesis using assms(1) by simp
  next
    assume "0 < n \<and> bs < length u \<and> nblocks (length u - bs) bs = n"
    then show ?thesis by simp
  qed
qed

lemma compress_entry_loop_step:
  assumes "0 < block_size ai" "nblocks (length (unread inp bu)) (block_size ai) = Suc n"
    "usize - bu = length (unread inp bu)"
  shows "compress_entry_loop lb ai cfg usize (Suc n) inp bc bu s =
     compress_entry_loop lb ai cfg usize n
        (snd (read_block inp bu (length (take (block_size ai) (unread inp bu)))))
        (bc + length (compress_block lb ai cfg (take (block_size ai) (unread inp bu))))
        (bu + length (take (block_size ai) (unread inp bu)))
        (emit s (compress_block lb ai cfg (take (block_size ai) (unread inp bu))))"
proof -
  note tr = to_read_eq[OF assms]
  note rb = read_block_take[of inp bu "block_size ai"]
  show ?thesis
    unfolding compress_entry_loop.simps Let_def tr emit_def
    by (subst rb) (simp del: length_take)
qed

lemma compress_entry_loop_blocks:
  assumes bs: "0 < block_size ai"
  shows "nblocks (length (unread inp bu)) (block_size ai) = n \<Longrightarrow>
         usize - bu = length (unread inp bu) \<Longrightarrow>
         compress_entry_loop lb ai cfg usize n inp bc bu s =
           (bc + length (concat (map (compress_block lb ai cfg)
                                  (chop (block_size ai) n (unread inp bu)))),
            foldl emit s (map (compress_block lb ai cfg)
                            (chop (block_size ai) n (unread inp bu))))"
proof (induction n arbitrary: inp bc bu s)
  case 0
  then show ?case by simp
next
  case (Suc n)
  let ?u = "unread inp bu"
  let ?rd = "take (block_size ai) ?u"
  let ?inp' = "snd (read_block inp bu (length ?rd))"
  have u': "unread ?inp' (bu + length ?rd) = drop (block_size ai) ?u"
    by (rule unread_after)
  have n': "nblocks (length (unread ?inp' (bu + length ?rd))) (block_size ai) = n"
    unfolding u' by (rule nblocks_drop[OF bs Suc.prems(1)])
  have "0 < length ?u"
    using nblocks_Suc_cases[OF bs Suc.prems(1)] by auto
  then have us: "usize - (bu + length ?rd) = length (unread ?inp' (bu + length ?rd))"
    unfolding u' using Suc.prems(2) by (auto simp add: min_def)
  show ?case
    unfolding compress_entry_loop_step[OF bs Suc.prems] Suc.IH[OF n' us] u'
    by (simp del: length_take)
qed

lemma foldl_emit_archive_file [simp]:
  "archive_file (foldl emit s ws) = archive_file s @ concat ws"
  by (induction ws arbitrary: s) (simp_all add: emit_def)

lemma foldl_emit_total_size [simp]: "total_size (foldl emit s ws) = total_size s"
  by (induction ws arbitrary: s) (simp_all add: emit_def)

lemma foldl_emit_blocktable [simp]:
  "blocktable (foldl emit s ws) = store_slots (blocktable s) (blocktable_idx s) (map length ws)"
  by (induction ws arbitrary: s) (simp_all add: emit_def)

lemma foldl_emit_blocktable_idx:
  "blocktable_idx s < 2 ^ 32 \<Longrightarrow>
     blocktable_idx (foldl emit s ws) = (blocktable_idx s + length ws) mod 2 ^ 32"
proof (induction ws arbitrary: s)
  case Nil
  then show ?case by simp
next
  case (Cons w ws)
  have "blocktable_idx (emit s w) < 2 ^ 32" by (simp add: emit_def)
  from Cons.IH[OF this] show ?case by (simp add: emit_def mod_add_left_eq)
qed




lemma uncompressed_size_commit_fi [simp]:
  "uncompressed_size (commit_fi first s len fi) = uncompressed_size fi"
  by (simp add: commit_fi_def)




lemma decompress_entry_loop_done:
  "remaining_size st = 0 \<Longrightarrow> decompress_entry_loop lb usize bt st = Some (Return 0 st)"
  by (subst decompress_entry_loop.simps) simp

lemma decompress_entry_loop_unfold:
  "0 < remaining_size st \<Longrightarrow>
     decompress_entry_loop lb usize bt st =
       (case decompress_step lb usize bt st of
          Inl r \<Rightarrow> Some r
        | Inr st' \<Rightarrow> decompress_entry_loop lb usize bt st')"
  by (subst decompress_entry_loop.simps) simp

lemma decompress_step_Inl:
  "decompress_step lb usize bt st = Inl r \<Longrightarrow> r \<noteq> Return 0 x"
  by (auto simp add: decompress_step_def Let_def split: if_splits prod.splits option.splits)

lemma fread1_ok:
  "fread1 n fp = (rd, rest) \<Longrightarrow> length rd = n \<Longrightarrow> n \<le> length fp \<and> rd = take n fp \<and> rest = drop n fp"
  by (auto simp add: fread1_def split: if_splits)

lemma decompress_step_Inr:
  assumes "decompress_step lb usize bt st = Inr st1"
  shows "open_block st < length bt"
    and "resolve_slot (chunk_size st) (bt ! open_block st) \<le> length (archive st)"
    and "archive st1 = drop (resolve_slot (chunk_size st) (bt ! open_block st)) (archive st)"
    and "remaining_size st1 = remaining_size st - min (remaining_size st) (chunk_size st)"
    and "chunk_size st1 = min (remaining_size st) (chunk_size st)"
    and "open_block st1 = (open_block st + 1) mod 2 ^ 32"
  using assms
  by (auto simp add: decompress_step_def Let_def min_def
      split: if_splits prod.splits option.splits dest!: fread1_ok)

lemma get_compressed_size_loop_sum:
  "index + blocks \<le> length bt \<Longrightarrow> length bt < 2 ^ 32 \<Longrightarrow>
     get_compressed_size_loop bs bt blocks index len
       = Some (len + sum_list (map (resolve_slot bs) (take blocks (drop index bt))))"
proof (induction blocks arbitrary: index len)
  case 0
  then show ?case by simp
next
  case (Suc blocks)
  then have i: "index < length bt" by simp
  then have m: "(index + 1) mod 2 ^ 32 = index + 1"
    using Suc.prems(2) by (intro mod_less) linarith
  have t: "take (Suc blocks) (drop index bt) = bt ! index # take blocks (drop (index + 1) bt)"
    using i by (simp add: Cons_nth_drop_Suc[symmetric])
  have "index + 1 + blocks \<le> length bt" using Suc.prems(1) by simp
  from Suc.IH[OF this Suc.prems(2)] show ?case using i m t by simp
qed

lemma decompress_entry_loop_consumed:
  assumes bs: "0 < bs" and bt: "length bt < 2 ^ 32"
  shows "chunk_size st = bs \<Longrightarrow>
         decompress_entry_loop lb usize bt st = Some (Return 0 st') \<Longrightarrow>
         (remaining_size st = 0 \<or> open_block st + nblocks (remaining_size st) bs \<le> length bt)
         \<and> length (archive st) = length (archive st')
               + sum_list (map (resolve_slot bs)
                   (take (nblocks (remaining_size st) bs) (drop (open_block st) bt)))"
proof (induction "remaining_size st" arbitrary: st rule: less_induct)
  case less
  show ?case
  proof (cases "remaining_size st = 0")
    case True
    then have "st' = st" using less.prems(2) decompress_entry_loop_done[OF True, of lb usize bt] by simp
    then show ?thesis using True bs by simp
  next
    case False
    then have r: "0 < remaining_size st" by simp
    note unf = decompress_entry_loop_unfold[OF r, of lb usize bt]
    obtain st1 where s1: "decompress_step lb usize bt st = Inr st1"
      and l1: "decompress_entry_loop lb usize bt st1 = Some (Return 0 st')"
      using less.prems(2) unf decompress_step_Inl[of lb usize bt st]
      by (cases "decompress_step lb usize bt st") auto
    note I = decompress_step_Inr[OF s1]
    let ?i = "open_block st"
    have ob: "open_block st1 = ?i + 1"
      using I(1,6) bt by simp
    have hd: "take (Suc n) (drop ?i bt) = bt ! ?i # take n (drop (?i + 1) bt)" for n
      using I(1) by (simp add: Cons_nth_drop_Suc[symmetric])
    have len: "length (archive st) = length (archive st1) + resolve_slot bs (bt ! ?i)"
      using I(2,3) less.prems(1) by simp
    show ?thesis
    proof (cases "remaining_size st \<le> bs")
      case True
      then have "remaining_size st1 = 0" using I(4) less.prems(1) by simp
      then have "st' = st1" using l1 decompress_entry_loop_done[of st1 lb usize bt] by simp
      moreover have "nblocks (remaining_size st) bs = 1" using nblocks_le[OF bs r True] .
      ultimately show ?thesis using len I(1) hd[of 0] by simp
    next
      case False
      then have big: "bs < remaining_size st" by simp
      then have r1: "remaining_size st1 = remaining_size st - bs" and c1: "chunk_size st1 = bs"
        using I(4,5) less.prems(1) by (simp_all add: min_def)
      have lt: "remaining_size st1 < remaining_size st" using r1 big bs by simp
      have nz: "remaining_size st1 \<noteq> 0" using r1 big by simp
      from less.hyps[OF lt c1 l1] nz
      have ih1: "open_block st1 + nblocks (remaining_size st1) bs \<le> length bt"
        and ih2: "length (archive st1) = length (archive st')
               + sum_list (map (resolve_slot bs)
                   (take (nblocks (remaining_size st1) bs) (drop (open_block st1) bt)))"
        by simp_all
      have nb: "nblocks (remaining_size st) bs = Suc (nblocks (remaining_size st1) bs)"
        using nblocks_step[OF bs big] r1 by simp
      show ?thesis using ih1 ih2 len ob nb hd[of "nblocks (remaining_size st1) bs"] by simp
    qed
  qed
qed

lemma decompress_entry_loop_returns:
  "0 < chunk_size st \<Longrightarrow> decompress_entry_loop lb usize bt st \<noteq> None"
proof (induction "remaining_size st" arbitrary: st rule: less_induct)
  case less
  show ?case
  proof (cases "remaining_size st = 0")
    case True
    then show ?thesis using decompress_entry_loop_done[OF True, of lb usize bt] by simp
  next
    case False
    then have r: "0 < remaining_size st" by simp
    note unf = decompress_entry_loop_unfold[OF r, of lb usize bt]
    show ?thesis
    proof (cases "decompress_step lb usize bt st")
      case (Inl res)
      then show ?thesis using unf by simp
    next
      case (Inr st1)
      note I = decompress_step_Inr[OF Inr]
      have c1: "0 < chunk_size st1" using I(5) r less.prems by simp
      have lt: "remaining_size st1 < remaining_size st"
        using I(4) r less.prems by (simp add: min_def)
      from less.hyps[OF lt c1] show ?thesis using unf Inr by simp
    qed
  qed
qed

lemma length_mem_write:
  "pos + length a \<le> length buf \<Longrightarrow> length (mem_write pos a buf) = length buf"
  by (simp add: mem_write_def)

lemma decompress_block_decodable:
  assumes "block_decodable lb blk w" and "length blk \<le> length tb"
    and "sink_room out usize" and "pos + length blk \<le> usize"
  shows "\<exists>tb'. length tb' = length tb
           \<and> decompress_block lb (length blk) pos w tb out = Some (True, tb', sink_write out pos blk)"
proof (cases out)
  case (ToMem buf)
  then have room: "pos + length blk \<le> length buf" using assms(3,4) by simp
  show ?thesis
    using assms(1) room ToMem
    by (simp add: decompress_block_def block_decodable_def split: if_splits)
next
  case (ToFile f)
  have t: "take (length blk) (mem_write 0 blk tb) = blk" by (simp add: mem_write_def)
  have l: "length (mem_write 0 blk tb) = length tb"
    using assms(2) by (simp add: length_mem_write)
  show ?thesis
    using assms(1,2) ToFile t l
    by (simp add: decompress_block_def block_decodable_def split: if_splits)
qed

lemma decompress_step_block:
  assumes "open_block st < length bt" "length bt < 2 ^ 32"
    and "resolve_slot (chunk_size st) (bt ! open_block st) = length w"
    and "archive st = w @ rest"
    and "block_decodable lb blk w"
    and "length blk = min (remaining_size st) (chunk_size st)"
    and "length w \<le> length (target_buffer st)"
    and "length blk \<le> length (target_buffer st)"
    and "sink_room (dest st) usize"
    and "usize - remaining_size st + length blk \<le> usize"
  shows "\<exists>tb. length tb = length (target_buffer st) \<and>
         decompress_step lb usize bt st =
           Inr (st\<lparr>chunk_size := length blk, archive := rest, target_buffer := tb,
                   dest := sink_write (dest st) (usize - remaining_size st) blk,
                   remaining_size := remaining_size st - length blk,
                   open_block := open_block st + 1\<rparr>)"
proof -
  have m: "(open_block st + 1) mod 2 ^ 32 = open_block st + 1"
    using assms(1,2) by (intro mod_less) linarith
  have fr: "fread1 (length w) (w @ rest) = (w, rest)" by (simp add: fread1_def)
  have ch: "(if remaining_size st < chunk_size st then remaining_size st else chunk_size st)
              = length blk"
    using assms(6) by (simp add: min_def)
  have cap: "\<not> length (target_buffer st) < min (length w) (length (w @ rest))"
    using assms(7) by simp
  from decompress_block_decodable[OF assms(5,8,9,10)]
  obtain tb where tb: "length tb = length (target_buffer st)"
    and db: "decompress_block lb (length blk) (usize - remaining_size st) w (target_buffer st) (dest st)
       = Some (True, tb, sink_write (dest st) (usize - remaining_size st) blk)"
    by blast
  have "decompress_step lb usize bt st =
           Inr (st\<lparr>chunk_size := length blk, archive := rest, target_buffer := tb,
                   dest := sink_write (dest st) (usize - remaining_size st) blk,
                   remaining_size := remaining_size st - length blk,
                   open_block := open_block st + 1\<rparr>)"
    unfolding decompress_step_def Let_def assms(3) assms(4) fr ch prod.case db
    using assms(1) m cap by (cases st) simp
  then show ?thesis using tb by blast
qed

lemma sink_write_Nil [simp]: "sink_write out pos [] = out"
  by (cases out) (simp_all add: mem_write_def)

lemma mem_write_append:
  assumes "pos + length a \<le> length buf"
  shows "mem_write (pos + length a) b (mem_write pos a buf) = mem_write pos (a @ b) buf"
proof -
  have l: "length (take pos buf) = pos" using assms by simp
  have t: "take (pos + length a) (take pos buf @ a @ drop (pos + length a) buf) = take pos buf @ a"
    using l by simp
  have d: "drop (pos + length a + length b) (take pos buf @ a @ drop (pos + length a) buf)
             = drop (pos + length (a @ b)) buf"
    using l by (simp add: add.commute add.left_commute)
  show ?thesis unfolding mem_write_def t d by simp
qed

lemma sink_write_append:
  "sink_room out usize \<Longrightarrow> pos + length a \<le> usize \<Longrightarrow>
     sink_write (sink_write out pos a) (pos + length a) b = sink_write out pos (a @ b)"
proof (cases out)
  case (ToMem buf)
  assume "sink_room out usize" "pos + length a \<le> usize"
  then have "pos + length a \<le> length buf" using ToMem by simp
  from mem_write_append[OF this] show ?thesis using ToMem by simp
next
  case (ToFile f)
  then show ?thesis by simp
qed

lemma sink_room_write:
  "sink_room out usize \<Longrightarrow> pos + length a \<le> usize \<Longrightarrow> sink_room (sink_write out pos a) usize"
proof (cases out)
  case (ToMem buf)
  assume "sink_room out usize" "pos + length a \<le> usize"
  then have "pos + length a \<le> length buf" "usize \<le> length buf" using ToMem by simp_all
  then show ?thesis using ToMem length_mem_write[of pos a buf] by simp
next
  case (ToFile f)
  then show ?thesis by simp
qed

lemma decompress_loop_blocks:
  assumes bs: "0 < bs" and bt: "length bt < 2 ^ 32"
  shows "chunk_size st = bs \<Longrightarrow> remaining_size st = length c \<Longrightarrow> length c \<le> usize \<Longrightarrow>
         sink_room (dest st) usize \<Longrightarrow>
         (ws \<noteq> [] \<longrightarrow> open_block st + length ws \<le> length bt) \<Longrightarrow>
         length ws = nblocks (length c) bs \<Longrightarrow>
         (\<forall>k < length ws. block_decodable lb (chop bs (length ws) c ! k) (ws ! k)
              \<and> resolve_slot bs (bt ! (open_block st + k)) = length (ws ! k)
              \<and> length (ws ! k) \<le> length (target_buffer st)) \<Longrightarrow>
         bs \<le> length (target_buffer st) \<Longrightarrow>
         archive st = concat ws @ rest \<Longrightarrow>
         \<exists>st'. decompress_entry_loop lb usize bt st = Some (Return 0 st')
               \<and> archive st' = rest
               \<and> dest st' = sink_write (dest st) (usize - length c) c"
proof (induction ws arbitrary: st c)
  case Nil
  have "c = []"
  proof (rule ccontr)
    assume "c \<noteq> []"
    then have "0 < length c" by simp
    from nblocks_pos[OF bs this] Nil.prems(6) show False by simp
  qed
  then have "remaining_size st = 0" using Nil.prems(2) by simp
  from decompress_entry_loop_done[OF this, of lb usize bt] show ?case
    using Nil.prems(9) \<open>c = []\<close> by simp
next
  case (Cons w ws)
  let ?blk = "take bs c"
  let ?pos = "usize - length c"
  have nb: "nblocks (length c) bs = Suc (length ws)" using Cons.prems(6) by simp
  have cpos: "0 < length c" using nb bs by (cases "length c = 0") simp_all
  have r: "0 < remaining_size st" using cpos Cons.prems(2) by simp
  have k0: "block_decodable lb ?blk w" "resolve_slot bs (bt ! open_block st) = length w"
    "length w \<le> length (target_buffer st)"
    using Cons.prems(7)[rule_format, of 0] by simp_all
  have ob: "open_block st < length bt" using Cons.prems(5) by simp
  have lb: "length ?blk = min (remaining_size st) (chunk_size st)"
    using Cons.prems(1,2) by (simp add: min_def)
  have ar: "archive st = w @ (concat ws @ rest)" using Cons.prems(9) by simp
  have rs: "resolve_slot (chunk_size st) (bt ! open_block st) = length w"
    using k0(2) Cons.prems(1) by simp
  have bl: "length ?blk \<le> length (target_buffer st)" using Cons.prems(8) by simp
  have lbc: "length ?blk \<le> length c" by simp
  have pl0: "usize - remaining_size st + length ?blk \<le> usize"
    unfolding Cons.prems(2) using Cons.prems(3) lbc by linarith
  from decompress_step_block[OF ob bt rs ar k0(1) lb k0(3) bl Cons.prems(4) pl0]
  obtain tb where tbl: "length tb = length (target_buffer st)"
    and step: "decompress_step lb usize bt st =
           Inr (st\<lparr>chunk_size := length ?blk, archive := concat ws @ rest, target_buffer := tb,
                   dest := sink_write (dest st) (usize - remaining_size st) ?blk,
                   remaining_size := remaining_size st - length ?blk,
                   open_block := open_block st + 1\<rparr>)"
    by blast
  let ?st1 = "st\<lparr>chunk_size := length ?blk, archive := concat ws @ rest, target_buffer := tb,
                   dest := sink_write (dest st) (usize - remaining_size st) ?blk,
                   remaining_size := remaining_size st - length ?blk,
                   open_block := open_block st + 1\<rparr>"
  have unf: "decompress_entry_loop lb usize bt st = decompress_entry_loop lb usize bt ?st1"
    using decompress_entry_loop_unfold[OF r, of lb usize bt] step by simp
  from nblocks_Suc_cases[OF bs nb]
  show ?case
  proof
    assume a: "length ws = 0 \<and> 0 < length c \<and> length c \<le> bs"
    then have blk: "?blk = c" by simp
    have "remaining_size ?st1 = 0" using Cons.prems(2) blk by simp
    from decompress_entry_loop_done[OF this, of lb usize bt]
    show ?thesis unfolding unf using a blk Cons.prems(2) by simp
  next
    assume a: "0 < length ws \<and> bs < length c \<and> nblocks (length c - bs) bs = length ws"
    then have lblk: "length ?blk = bs" by simp
    have p1: "chunk_size ?st1 = bs" using lblk by simp
    have p2: "remaining_size ?st1 = length (drop bs c)" using Cons.prems(2) lblk by simp
    have p3: "length (drop bs c) \<le> usize" using Cons.prems(3) by simp
    have "bs < length c" using a by simp
    then have pl: "?pos + length ?blk \<le> usize" using Cons.prems(3) lblk by linarith
    have p4: "sink_room (dest ?st1) usize"
      using sink_room_write[OF Cons.prems(4) pl] Cons.prems(2) by simp
    have p5: "ws \<noteq> [] \<longrightarrow> open_block ?st1 + length ws \<le> length bt"
      using Cons.prems(5) by simp
    have p6: "length ws = nblocks (length (drop bs c)) bs" using a by simp
    have p7: "\<forall>k < length ws. block_decodable lb (chop bs (length ws) (drop bs c) ! k) (ws ! k)
              \<and> resolve_slot bs (bt ! (open_block ?st1 + k)) = length (ws ! k)
              \<and> length (ws ! k) \<le> length (target_buffer ?st1)"
    proof (intro allI impI)
      fix k assume "k < length ws"
      then have "Suc k < length (w # ws)" by simp
      from Cons.prems(7)[rule_format, OF this] tbl
      show "block_decodable lb (chop bs (length ws) (drop bs c) ! k) (ws ! k)
              \<and> resolve_slot bs (bt ! (open_block ?st1 + k)) = length (ws ! k)
              \<and> length (ws ! k) \<le> length (target_buffer ?st1)"
        by simp
    qed
    have p8: "bs \<le> length (target_buffer ?st1)" using Cons.prems(8) tbl by simp
    have p9: "archive ?st1 = concat ws @ rest" by simp
    from Cons.IH[OF p1 p2 p3 p4 p5 p6 p7 p8 p9]
    obtain st' where res: "decompress_entry_loop lb usize bt ?st1 = Some (Return 0 st')"
      "archive st' = rest" "dest st' = sink_write (dest ?st1) (usize - length (drop bs c)) (drop bs c)"
      by blast
    have pe: "usize - length (drop bs c) = ?pos + length ?blk"
      using Cons.prems(3) \<open>bs < length c\<close> lblk by simp
    have "dest st' = sink_write (dest st) ?pos (?blk @ drop bs c)"
      using res(3) sink_write_append[OF Cons.prems(4) pl, of "drop bs c"] Cons.prems(2)
      unfolding pe by simp
    then show ?thesis unfolding unf using res(1,2) by simp
  qed
qed




lemma compress_entry_mem:
  assumes "0 < block_size ai" "uncompressed_size fi = length m"
    "num_blocks fi = nblocks (length m) (block_size ai)"
  shows "compress_entry lb ai cfg (Mem m) fi s =
     (fi\<lparr>offset := total_size s, block_index := blocktable_idx s,
         compressed_size := length (concat (map (compress_block lb ai cfg)
                               (chop (block_size ai) (num_blocks fi) m)))\<rparr>,
      (foldl emit s (map (compress_block lb ai cfg) (chop (block_size ai) (num_blocks fi) m)))
        \<lparr>total_size := total_size s
            + length (concat (map (compress_block lb ai cfg)
                         (chop (block_size ai) (num_blocks fi) m)))\<rparr>)"
proof -
  have a: "nblocks (length (unread (Mem m) 0)) (block_size ai) = num_blocks fi"
    using assms(3) by simp
  have b: "length m - 0 = length (unread (Mem m) 0)" by simp
  note L = compress_entry_loop_blocks[OF assms(1) a b, of lb cfg 0 s]
  show ?thesis
    using L by (simp add: compress_entry_def Let_def assms(2) del: foldl_emit_blocktable)
qed







text \<open>
  Claim C10. For an entry of size 0 the writer, on either path, writes no data and no
  slot and sets the compressed size to 0; \<^verbatim>\<open>get_compressed_size\<close> is 0 for it, and the
  loop of \<^verbatim>\<open>decompress_entry\<close> is not entered: it returns 0 and has read nothing.
\<close>

theorem empty_entry:
  assumes "uncompressed_size fi = 0" and "0 < block_size ai"
    and "num_blocks fi = ((uncompressed_size fi + block_size ai - 1) div block_size ai) mod 2 ^ 32"
  shows "compress_entry lb ai cfg inp fi s
           = (fi\<lparr>offset := total_size s, block_index := blocktable_idx s,
                  compressed_size := 0\<rparr>, s)
       \<and> compress_entry_multi lb ai cfg fp fi s = (fi\<lparr>compressed_size := 0\<rparr>, s)
       \<and> get_compressed_size ai fi bt = Some 0
       \<and> decompress_entry lb ai file tb out fi bt
           = Some (Return 0 \<lparr>remaining_size = 0, chunk_size = block_size ai,
                             open_block = block_index fi, archive = drop (offset fi) file,
                             target_buffer = tb, dest = out\<rparr>)"
proof -
  have n: "num_blocks fi = 0" using assms by simp
  have 1: "compress_entry lb ai cfg inp fi s
           = (fi\<lparr>offset := total_size s, block_index := blocktable_idx s,
                  compressed_size := 0\<rparr>, s)"
    by (simp add: compress_entry_def n)
  have 2: "compress_entry_multi lb ai cfg fp fi s = (fi\<lparr>compressed_size := 0\<rparr>, s)"
    by (simp add: compress_entry_multi_def assms(1))
  have 3: "get_compressed_size ai fi bt = Some 0"
    by (simp add: get_compressed_size_def assms(1))
  have 4: "decompress_entry lb ai file tb out fi bt
           = Some (Return 0 \<lparr>remaining_size = 0, chunk_size = block_size ai,
                             open_block = block_index fi, archive = drop (offset fi) file,
                             target_buffer = tb, dest = out\<rparr>)"
    unfolding decompress_entry_def assms(1)
    by (rule decompress_entry_loop_done) simp
  show ?thesis using 1 2 3 4 by blast
qed

theorem empty_entry_witness:
  "uncompressed_size empty_fi = 0 \<and> (0::nat) < block_size zlib_16
   \<and> compress_entry test_libs zlib_16 default_Config (Fp []) empty_fi empty_state
        = (empty_fi, empty_state)
   \<and> compress_entry_multi test_libs zlib_16 default_Config [] empty_fi empty_state
        = (empty_fi, empty_state)
   \<and> get_compressed_size zlib_16 empty_fi [] = Some 0
   \<and> decompress_entry test_libs zlib_16 [1, 2, 3] [] (ToFile []) empty_fi []
        = Some (Return 0 \<lparr>remaining_size = 0, chunk_size = 16, open_block = 0,
                          archive = [1, 2, 3], target_buffer = [], dest = ToFile []\<rparr>)"
proof -
  have a: "uncompressed_size empty_fi = 0" by (simp add: empty_fi_def)
  have b: "0 < block_size zlib_16" by (simp add: zlib_16_def)
  have c: "num_blocks empty_fi
     = ((uncompressed_size empty_fi + block_size zlib_16 - 1) div block_size zlib_16) mod 2 ^ 32"
    by (simp add: empty_fi_def zlib_16_def)
  from empty_entry[OF a b c, of test_libs default_Config "Fp []" empty_state "[]" "[]" "[1, 2, 3]" "[]" "ToFile []"]
  show ?thesis using a b
    by (simp add: empty_fi_def empty_state_def zlib_16_def)
qed

text \<open>
  Claim C4. For an entry whose slots are in the block-size table, \<^verbatim>\<open>get_compressed_size\<close>
  is the sum of the entry's slots with 0 read as the block size. The extraction of the
  entry returns (the loop ends, whatever the archive holds), and whenever it returns 0
  it has consumed exactly that many bytes of the archive. It does return 0 when the
  archive holds, from the entry's offset on, blocks \<open>ws\<close> of the recorded sizes that
  decode to the blocks of a content \<open>c\<close> of the entry's size and the buffers are large
  enough for a block; it then delivers \<open>c\<close> and stops in front of the rest of the archive.
\<close>

theorem blocktable_consistency:
  assumes "0 < block_size ai" and "length bt < 2 ^ 32"
    and "uncompressed_size fi = 0
         \<or> block_index fi + nblocks (uncompressed_size fi) (block_size ai) \<le> length bt"
  shows "get_compressed_size ai fi bt
           = Some (sum_list (map (resolve_slot (block_size ai))
                     (take (nblocks (uncompressed_size fi) (block_size ai))
                        (drop (block_index fi) bt))))
       \<and> decompress_entry lb ai file tb out fi bt \<noteq> None
       \<and> (decompress_entry lb ai file tb out fi bt = Some (Return 0 st') \<longrightarrow>
            length (drop (offset fi) file)
              = length (archive st')
                + sum_list (map (resolve_slot (block_size ai))
                     (take (nblocks (uncompressed_size fi) (block_size ai))
                        (drop (block_index fi) bt))))
       \<and> (uncompressed_size fi = length c \<and> sink_room out (length c)
            \<and> block_size ai \<le> length tb
            \<and> length ws = nblocks (length c) (block_size ai)
            \<and> (\<forall>k < length ws.
                   block_decodable lb (chop (block_size ai) (length ws) c ! k) (ws ! k)
                   \<and> resolve_slot (block_size ai) (bt ! (block_index fi + k)) = length (ws ! k)
                   \<and> length (ws ! k) \<le> length tb)
            \<and> drop (offset fi) file = concat ws @ rest \<longrightarrow>
            (\<exists>st. decompress_entry lb ai file tb out fi bt = Some (Return 0 st)
                  \<and> archive st = rest \<and> dest st = sink_write out 0 c
                  \<and> length (concat ws)
                      = sum_list (map (resolve_slot (block_size ai))
                          (take (nblocks (uncompressed_size fi) (block_size ai))
                             (drop (block_index fi) bt)))))"
proof -
  let ?N = "nblocks (uncompressed_size fi) (block_size ai)"
  let ?S = "sum_list (map (resolve_slot (block_size ai)) (take ?N (drop (block_index fi) bt)))"
  let ?st0 = "\<lparr>remaining_size = uncompressed_size fi, chunk_size = block_size ai,
        open_block = block_index fi, archive = drop (offset fi) file,
        target_buffer = tb, dest = out\<rparr>"
  have g: "get_compressed_size ai fi bt = Some ?S"
  proof (cases "uncompressed_size fi = 0")
    case True
    then show ?thesis using assms(1) by (simp add: get_compressed_size_def)
  next
    case False
    then have le: "block_index fi + ?N \<le> length bt" using assms(3) by simp
    then have "?N < 2 ^ 32" using assms(2) by simp
    then have m: "((uncompressed_size fi + block_size ai - 1) div block_size ai) mod 2 ^ 32 = ?N"
      by (simp add: nblocks_def)
    have "get_compressed_size ai fi bt
            = get_compressed_size_loop (block_size ai) bt ?N (block_index fi) 0"
      unfolding get_compressed_size_def Let_def m using False assms(1) by simp
    then show ?thesis
      using get_compressed_size_loop_sum[OF le assms(2), of "block_size ai" 0] by simp
  qed
  have t: "decompress_entry lb ai file tb out fi bt \<noteq> None"
    unfolding decompress_entry_def
    by (rule decompress_entry_loop_returns) (simp add: assms(1))
  have d: "length (drop (offset fi) file) = length (archive s) + ?S"
    if "decompress_entry lb ai file tb out fi bt = Some (Return 0 s)" for s
    using decompress_entry_loop_consumed[OF assms(1,2) _ that[unfolded decompress_entry_def]]
    by simp
  have e: "\<exists>st. decompress_entry lb ai file tb out fi bt = Some (Return 0 st)
                  \<and> archive st = rest \<and> dest st = sink_write out 0 c
                  \<and> length (concat ws) = ?S"
    if h: "uncompressed_size fi = length c \<and> sink_room out (length c)
            \<and> block_size ai \<le> length tb
            \<and> length ws = nblocks (length c) (block_size ai)
            \<and> (\<forall>k < length ws.
                   block_decodable lb (chop (block_size ai) (length ws) c ! k) (ws ! k)
                   \<and> resolve_slot (block_size ai) (bt ! (block_index fi + k)) = length (ws ! k)
                   \<and> length (ws ! k) \<le> length tb)
            \<and> drop (offset fi) file = concat ws @ rest"
  proof -
    have q1: "chunk_size ?st0 = block_size ai" by simp
    have q2: "remaining_size ?st0 = length c" using h by simp
    have q3: "length c \<le> length c" by simp
    have q4: "sink_room (dest ?st0) (length c)" using h by simp
    have q5: "ws \<noteq> [] \<longrightarrow> open_block ?st0 + length ws \<le> length bt"
    proof (cases "uncompressed_size fi = 0")
      case True
      then have "length ws = 0" using h assms(1) by simp
      then show ?thesis by simp
    next
      case False
      then show ?thesis using assms(3) h by simp
    qed
    have q6: "length ws = nblocks (length c) (block_size ai)" using h by simp
    have q7: "\<forall>k < length ws.
                   block_decodable lb (chop (block_size ai) (length ws) c ! k) (ws ! k)
                   \<and> resolve_slot (block_size ai) (bt ! (open_block ?st0 + k)) = length (ws ! k)
                   \<and> length (ws ! k) \<le> length (target_buffer ?st0)"
    proof -
      from h have "\<forall>k < length ws.
                   block_decodable lb (chop (block_size ai) (length ws) c ! k) (ws ! k)
                   \<and> resolve_slot (block_size ai) (bt ! (block_index fi + k)) = length (ws ! k)
                   \<and> length (ws ! k) \<le> length tb"
        by blast
      then show ?thesis by simp
    qed
    have q8: "block_size ai \<le> length (target_buffer ?st0)" using h by simp
    have q9: "archive ?st0 = concat ws @ rest" using h by simp
    from decompress_loop_blocks[OF assms(1,2) q1 q2 q3 q4 q5 q6 q7 q8 q9]
    obtain st where r: "decompress_entry_loop lb (length c) bt ?st0 = Some (Return 0 st)"
      "archive st = rest" "dest st = sink_write out 0 c"
      by auto
    have de: "decompress_entry lb ai file tb out fi bt = Some (Return 0 st)"
      using r(1) h by (simp add: decompress_entry_def)
    from d[OF de] r(2) h have "length (concat ws @ rest) = length rest + ?S"
      by simp
    then have "length (concat ws) = ?S" by simp
    then show ?thesis using de r(2,3) by blast
  qed
  show ?thesis
    apply (intro conjI impI)
       apply (rule g)
      apply (rule t)
     apply (erule d)
    apply (erule e)
    done
qed

lemma six_decompress:
  "decompress_entry test_libs store_4 [9, 9, 1, 2, 3, 4, 5, 6, 8] [0, 0, 0, 0, 0, 0, 0, 0]
       (ToFile []) six_fi [0, 2]
     = Some (Return 0 \<lparr>remaining_size = 0, chunk_size = 2, open_block = 2, archive = [8],
                       target_buffer = [0, 0, 0, 0, 0, 0, 0, 0],
                       dest = ToFile [1, 2, 3, 4, 5, 6]\<rparr>)"
  by (simp add: decompress_entry_def decompress_entry_loop.simps decompress_step_def
      store_4_def six_fi_def default_ArchiveInfo_def resolve_slot_def fread1_def
      decompress_block_def is_zlib_block_def is_lzma_block_def xz_magic_def Let_def)

theorem blocktable_consistency_witness:
  "(0::nat) < block_size store_4 \<and> length [0, 2 :: nat] < 2 ^ 32
   \<and> block_index six_fi + nblocks (uncompressed_size six_fi) (block_size store_4) \<le> length [0, 2 :: nat]
   \<and> get_compressed_size store_4 six_fi [0, 2] = Some 6
   \<and> decompress_entry test_libs store_4 [9, 9, 1, 2, 3, 4, 5, 6, 8] [0, 0, 0, 0, 0, 0, 0, 0]
         (ToFile []) six_fi [0, 2] \<noteq> None
   \<and> (\<exists>st. decompress_entry test_libs store_4 [9, 9, 1, 2, 3, 4, 5, 6, 8]
               [0, 0, 0, 0, 0, 0, 0, 0] (ToFile []) six_fi [0, 2] = Some (Return 0 st)
           \<and> archive st = [8] \<and> dest st = ToFile [1, 2, 3, 4, 5, 6]
           \<and> length (drop (offset six_fi) [9, 9, 1, 2, 3, 4, 5, 6, 8 :: byte])
               = length (archive st) + 6)"
proof -
  have a: "0 < block_size store_4" by (simp add: store_4_def)
  have b: "length [0, 2 :: nat] < 2 ^ 32" by simp
  have n: "nblocks (uncompressed_size six_fi) (block_size store_4) = 2"
    by (simp add: nblocks_def six_fi_def store_4_def)
  have c: "uncompressed_size six_fi = 0
     \<or> block_index six_fi + nblocks (uncompressed_size six_fi) (block_size store_4) \<le> length [0, 2 :: nat]"
    by (simp add: n) (simp add: six_fi_def)
  have n': "nblocks 6 4 = 2" "nblocks (Suc (Suc (Suc (Suc (Suc (Suc 0)))))) 4 = Suc (Suc 0)"
    by (simp_all add: nblocks_def)
  have bd: "block_decodable test_libs [1, 2, 3, 4] [1, 2, 3, 4]"
    "block_decodable test_libs [5, 6] [5, 6]"
    by (simp_all add: block_decodable_def is_zlib_block_def is_lzma_block_def xz_magic_def)
  have h: "uncompressed_size six_fi = length [1, 2, 3, 4, 5, 6 :: byte]
            \<and> sink_room (ToFile []) (length [1, 2, 3, 4, 5, 6 :: byte])
            \<and> block_size store_4 \<le> length [0, 0, 0, 0, 0, 0, 0, 0 :: byte]
            \<and> length [[1, 2, 3, 4], [5, 6 :: byte]]
                = nblocks (length [1, 2, 3, 4, 5, 6 :: byte]) (block_size store_4)
            \<and> (\<forall>k < length [[1, 2, 3, 4], [5, 6 :: byte]].
                   block_decodable test_libs
                     (chop (block_size store_4) (length [[1, 2, 3, 4], [5, 6 :: byte]])
                        [1, 2, 3, 4, 5, 6] ! k) ([[1, 2, 3, 4], [5, 6]] ! k)
                   \<and> resolve_slot (block_size store_4) ([0, 2] ! (block_index six_fi + k))
                       = length ([[1, 2, 3, 4], [5, 6 :: byte]] ! k)
                   \<and> length ([[1, 2, 3, 4], [5, 6 :: byte]] ! k)
                       \<le> length [0, 0, 0, 0, 0, 0, 0, 0 :: byte])
            \<and> drop (offset six_fi) [9, 9, 1, 2, 3, 4, 5, 6, 8]
                = concat [[1, 2, 3, 4], [5, 6 :: byte]] @ [8]"
    using bd
    by (simp add: six_fi_def store_4_def n' resolve_slot_def default_ArchiveInfo_def
        numeral_2_eq_2 less_Suc_eq)
  from blocktable_consistency[OF a b c, of test_libs "[9, 9, 1, 2, 3, 4, 5, 6, 8]"
         "[0, 0, 0, 0, 0, 0, 0, 0]" "ToFile []"
         "\<lparr>remaining_size = 0, chunk_size = 2, open_block = 2, archive = [8],
           target_buffer = [0, 0, 0, 0, 0, 0, 0, 0], dest = ToFile [1, 2, 3, 4, 5, 6]\<rparr>"
         "[1, 2, 3, 4, 5, 6]" "[[1, 2, 3, 4], [5, 6]]" "[8]"] six_decompress h
  show ?thesis using a b
    by (simp add: n' six_fi_def store_4_def resolve_slot_def default_ArchiveInfo_def)
qed

section \<open>Verified properties: extraction\<close>














section \<open>Verified properties: the worker pool and the synchronous path\<close>

lemmas create_eval = create_archive_def sample_pak_env_def default_Config_def default_ArchiveInfo_def Let_def
  two_files_def manifest_item_len_def manifest_name_def starts_with_slash_def AF_ABSPATH_def
  get_blocktable_item_size_def sizeof_PSARCHEADER_def sizeof_PSARCTOC_def
  compress_entry_def compress_entry_multi_def compress_block_def compress_block_thread_def
  PSARC_STORE_def PSARC_ZLIB_def PSARC_LZMA_def bytes_at_def fread1_def zero_FILEINFO_def
  compress_entry_thread_def write_toc_table_def write_toc_entry_def write_blocktable_def
  write_blocktable_item_def pwrite_def write_header_def htonl_def hton40_def htons_def
  magic_PSAR_def header_tag_def tag_zlib_def tag_lzma_def be128_def test_libs_def sub_u64_def upt_rec

text \<open>
  Claim C9 fails on inputs with an empty file. \<^verbatim>\<open>compress_entry\<close> gives every entry its
  first slot and its offset before its loop; \<^verbatim>\<open>compress_entry_multi\<close> leaves that to the
  commit of the entry's first block, and an empty entry has no block: its table entry
  keeps what \<^verbatim>\<open>malloc\<close> left there. For the files "a" (2 bytes) and "e" (empty), stored
  with the default block size, the table of contents entry of "e" (30 bytes at offset
  92) holds first slot 2 and offset 131 without the pool and, on zeroed memory, first
  slot 0 and offset 126 with it.
\<close>

theorem threaded_toc_differs:
  "(case create_archive test_libs sample_pak_env default_Config default_ArchiveInfo two_files of
      Inr a \<Rightarrow> bytes_at 92 30 a | Inl e \<Rightarrow> [])
     = [0, 0, 0, 0, 0, 0, 0, 0, 0, 0, 0, 0, 0, 0, 0, 0,  0, 0, 0, 2,  0, 0, 0, 0, 0,  0, 0, 0, 0, 131]
   \<and> (case create_archive test_libs sample_pak_env (default_Config\<lparr>num_threads := 1\<rparr>)
             default_ArchiveInfo two_files of
      Inr a \<Rightarrow> bytes_at 92 30 a | Inl e \<Rightarrow> [])
     = [0, 0, 0, 0, 0, 0, 0, 0, 0, 0, 0, 0, 0, 0, 0, 0,  0, 0, 0, 0,  0, 0, 0, 0, 0,  0, 0, 0, 0, 126]"
  by (simp add: create_eval)

end
